theory Spec2Isabelle
  imports Main "HOL-Library.Log_Nat"
begin

section \<open>Floats\<close>

text \<open>
  A Python \<open>float\<close> is an IEEE-754 binary64 number. Finite values are carried as the
  rational they denote. \<open>-0.0\<close> and \<open>0.0\<close> are identified: \<open>==\<close> and \<open><=\<close> do not tell
  them apart, Python raises on a division by either, and the code modelled here never prints
  a float.
\<close>

datatype double = Finite rat | PInf | NInf | NaN

text \<open>The exceptions that occur in the code modelled here.\<close>

datatype exn =
    TypeError
  | KeyError
  | AttributeError
  | OverflowError
  | ZeroDivisionError
  | ConnectionError
  | HTTPError
  | JSONDecodeError

text \<open>The nearest integer, a tie going to the even one.\<close>

definition round_half_even :: "rat \<Rightarrow> int" where
  "round_half_even x =
     (let f = \<lfloor>x\<rfloor>; d = x - of_int f
      in if d < 1 / 2 then f else if 1 / 2 < d then f + 1 else if even f then f else f + 1)"

text \<open>\<open>\<lfloor>log\<^sub>2 a\<rfloor>\<close> for a positive rational, from the bit lengths of its numerator and denominator.\<close>

definition ilog2 :: "rat \<Rightarrow> int" where
  "ilog2 a = (let (p, q) = quotient_of a; k = bitlen p - bitlen q in if 2 powi k \<le> a then k else k - 1)"

text \<open>
  Rounding to 53 significant bits: the doubles around \<open>x\<close> are the multiples of \<open>2 powi e\<close>
  with \<open>e = ilog2 \<bar>x\<bar> - 52\<close>, and \<open>e\<close> is never below -1074 (the subnormal range).
\<close>

definition round_at :: "rat \<Rightarrow> rat" where
  "round_at x = (let e = max (ilog2 \<bar>x\<bar> - 52) (- 1074) in of_int (round_half_even (x / 2 powi e)) * 2 powi e)"

text \<open>
  A rounded value whose binary exponent is above 1023, the largest of a double, overflows to an
  infinity.
\<close>

definition to_double :: "rat \<Rightarrow> double" where
  "to_double r =
     (if r = 0 then Finite 0
      else if 1024 \<le> ilog2 \<bar>r\<bar> then (if 0 < r then PInf else NInf)
      else Finite r)"

text \<open>Round to nearest, ties to even: the rounding of every arithmetic operation and literal.\<close>

definition fl :: "rat \<Rightarrow> double" where
  "fl x = (if x = 0 then Finite 0 else to_double (round_at x))"

text \<open>The operators \<open>-x\<close>, \<open>x + y\<close>, \<open>x - y\<close>, \<open>x * y\<close>, \<open>x <= y\<close> and \<open>x == y\<close> on floats.\<close>

fun fneg :: "double \<Rightarrow> double" where
  "fneg (Finite a) = Finite (- a)"
| "fneg PInf = NInf"
| "fneg NInf = PInf"
| "fneg NaN = NaN"

fun fadd :: "double \<Rightarrow> double \<Rightarrow> double" where
  "fadd (Finite a) (Finite b) = fl (a + b)"
| "fadd NaN y = NaN"
| "fadd x NaN = NaN"
| "fadd PInf NInf = NaN"
| "fadd NInf PInf = NaN"
| "fadd PInf y = PInf"
| "fadd NInf y = NInf"
| "fadd x PInf = PInf"
| "fadd x NInf = NInf"

definition fsub :: "double \<Rightarrow> double \<Rightarrow> double" where
  "fsub x y = fadd x (fneg y)"

definition inf_times :: "bool \<Rightarrow> rat \<Rightarrow> double" where
  "inf_times positive b = (if b = 0 then NaN else if (0 < b) = positive then PInf else NInf)"

fun fmul :: "double \<Rightarrow> double \<Rightarrow> double" where
  "fmul (Finite a) (Finite b) = fl (a * b)"
| "fmul NaN y = NaN"
| "fmul x NaN = NaN"
| "fmul PInf (Finite b) = inf_times True b"
| "fmul NInf (Finite b) = inf_times False b"
| "fmul (Finite a) PInf = inf_times True a"
| "fmul (Finite a) NInf = inf_times False a"
| "fmul PInf PInf = PInf"
| "fmul PInf NInf = NInf"
| "fmul NInf PInf = NInf"
| "fmul NInf NInf = PInf"

fun dle :: "double \<Rightarrow> double \<Rightarrow> bool" where
  "dle (Finite a) (Finite b) = (a \<le> b)"
| "dle NaN y = False"
| "dle x NaN = False"
| "dle NInf y = True"
| "dle x PInf = True"
| "dle PInf y = False"
| "dle x NInf = False"

fun deq :: "double \<Rightarrow> double \<Rightarrow> bool" where
  "deq NaN y = False"
| "deq x NaN = False"
| "deq x y = (x = y)"

text \<open>\<open>x / y\<close> on floats: Python raises on a zero divisor, whatever the dividend.\<close>

fun fdiv :: "double \<Rightarrow> double \<Rightarrow> exn + double" where
  "fdiv x (Finite b) =
     (if b = 0 then Inl ZeroDivisionError
      else (case x of
              Finite a \<Rightarrow> Inr (fl (a / b))
            | PInf \<Rightarrow> Inr (if 0 < b then PInf else NInf)
            | NInf \<Rightarrow> Inr (if 0 < b then NInf else PInf)
            | NaN \<Rightarrow> Inr NaN))"
| "fdiv NaN y = Inr NaN"
| "fdiv x NaN = Inr NaN"
| "fdiv (Finite a) y = Inr (Finite 0)"
| "fdiv x y = Inr NaN"

text \<open>An \<open>int\<close> operand of a float operation, and a decimal literal such as \<open>4.19\<close>.\<close>

definition float_int :: "int \<Rightarrow> double" where
  "float_int i = fl (of_int i)"

definition float_lit :: "rat \<Rightarrow> double" where
  "float_lit q = fl q"

section \<open>Python values\<close>

text \<open>
  The values the code handles dynamically: what \<open>r.json()\<close> returns and what the telemetry
  tuple holds. A dict is the list of its items (keys are strings, as in JSON); a lookup
  takes the first item with the key.
\<close>

datatype pyval =
    PNone
  | PBool bool
  | PInt int
  | PFloat double
  | PStr string
  | PList "pyval list"
  | PDict "(string \<times> pyval) list"

text \<open>Truthiness, as \<open>if x:\<close> and \<open>not x\<close> read it.\<close>

fun truthy :: "pyval \<Rightarrow> bool" where
  "truthy PNone = False"
| "truthy (PBool b) = b"
| "truthy (PInt i) = (i \<noteq> 0)"
| "truthy (PFloat d) = (d \<noteq> Finite 0)"
| "truthy (PStr s) = (s \<noteq> [])"
| "truthy (PList xs) = (xs \<noteq> [])"
| "truthy (PDict kvs) = (kvs \<noteq> [])"

primrec is_prefix :: "string \<Rightarrow> string \<Rightarrow> bool" where
  "is_prefix [] s = True"
| "is_prefix (c # cs) s = (case s of [] \<Rightarrow> False | d # ds \<Rightarrow> c = d \<and> is_prefix cs ds)"

primrec contains_str :: "string \<Rightarrow> string \<Rightarrow> bool" where
  "contains_str k [] = (k = [])"
| "contains_str k (c # cs) = (is_prefix k (c # cs) \<or> contains_str k cs)"

text \<open>\<open>k in container\<close> for a string literal \<open>k\<close>.\<close>

fun py_contains :: "string \<Rightarrow> pyval \<Rightarrow> exn + bool" where
  "py_contains k (PDict kvs) = Inr (k \<in> set (map fst kvs))"
| "py_contains k (PList xs) = Inr (PStr k \<in> set xs)"
| "py_contains k (PStr s) = Inr (contains_str k s)"
| "py_contains k PNone = Inl TypeError"
| "py_contains k (PBool b) = Inl TypeError"
| "py_contains k (PInt i) = Inl TypeError"
| "py_contains k (PFloat d) = Inl TypeError"

text \<open>\<open>container[k]\<close> for a string literal \<open>k\<close>: only a dict can be indexed by a string.\<close>

fun py_getitem :: "pyval \<Rightarrow> string \<Rightarrow> exn + pyval" where
  "py_getitem (PDict kvs) k = (case map_of kvs k of None \<Rightarrow> Inl KeyError | Some v \<Rightarrow> Inr v)"
| "py_getitem PNone k = Inl TypeError"
| "py_getitem (PBool b) k = Inl TypeError"
| "py_getitem (PInt i) k = Inl TypeError"
| "py_getitem (PFloat d) k = Inl TypeError"
| "py_getitem (PStr s) k = Inl TypeError"
| "py_getitem (PList xs) k = Inl TypeError"

text \<open>\<open>container.get(k, default)\<close>: a method of dicts only.\<close>

fun py_get :: "pyval \<Rightarrow> string \<Rightarrow> pyval \<Rightarrow> exn + pyval" where
  "py_get (PDict kvs) k dflt = (case map_of kvs k of None \<Rightarrow> Inr dflt | Some v \<Rightarrow> Inr v)"
| "py_get PNone k dflt = Inl AttributeError"
| "py_get (PBool b) k dflt = Inl AttributeError"
| "py_get (PInt i) k dflt = Inl AttributeError"
| "py_get (PFloat d) k dflt = Inl AttributeError"
| "py_get (PStr s) k dflt = Inl AttributeError"
| "py_get (PList xs) k dflt = Inl AttributeError"

text \<open>
  \<open>v / c\<close> for an \<open>int\<close> literal \<open>c\<close>. An \<open>int\<close> (or \<open>bool\<close>) divided by an \<open>int\<close> is the
  correctly rounded quotient, or OverflowError when that is no finite double; a float is
  divided by the literal converted to a float.
\<close>

definition int_truediv :: "int \<Rightarrow> int \<Rightarrow> exn + pyval" where
  "int_truediv n c =
     (if c = 0 then Inl ZeroDivisionError
      else (case fl (of_int n / of_int c) of
              Finite q \<Rightarrow> Inr (PFloat (Finite q))
            | _ \<Rightarrow> Inl OverflowError))"

fun py_truediv :: "pyval \<Rightarrow> int \<Rightarrow> exn + pyval" where
  "py_truediv (PInt n) c = int_truediv n c"
| "py_truediv (PBool b) c = int_truediv (if b then 1 else 0) c"
| "py_truediv (PFloat d) c = (case fdiv d (float_int c) of Inl e \<Rightarrow> Inl e | Inr q \<Rightarrow> Inr (PFloat q))"
| "py_truediv PNone c = Inl TypeError"
| "py_truediv (PStr s) c = Inl TypeError"
| "py_truediv (PList xs) c = Inl TypeError"
| "py_truediv (PDict kvs) c = Inl TypeError"

text \<open>
  The items \<open>for d in data\<close> visits: the elements of a list, the keys of a dict, the characters
  of a string; anything else is not iterable.
\<close>

fun py_iter :: "pyval \<Rightarrow> exn + pyval list" where
  "py_iter (PList xs) = Inr xs"
| "py_iter (PDict kvs) = Inr (map (\<lambda>kv. PStr (fst kv)) kvs)"
| "py_iter (PStr s) = Inr (map (\<lambda>c. PStr [c]) s)"
| "py_iter PNone = Inl TypeError"
| "py_iter (PBool b) = Inl TypeError"
| "py_iter (PInt i) = Inl TypeError"
| "py_iter (PFloat d) = Inl TypeError"

subsection \<open>String operations of the schedule evaluator\<close>

text \<open>
  Strings are byte strings here; \<open>str.strip\<close> and \<open>str.lower\<close> are modelled on ASCII
  (the whitespace of \<open>str.isspace\<close> below 128, and the letters A to Z).
\<close>

definition is_space :: "char \<Rightarrow> bool" where
  "is_space c = (c \<in> set [CHR 0x09, CHR 0x0A, CHR 0x0B, CHR 0x0C, CHR 0x0D,
                              CHR 0x1C, CHR 0x1D, CHR 0x1E, CHR 0x1F, CHR 0x20])"

definition lower_char :: "char \<Rightarrow> char" where
  "lower_char c =
     (case map_of (zip ''ABCDEFGHIJKLMNOPQRSTUVWXYZ'' ''abcdefghijklmnopqrstuvwxyz'') c of
        None \<Rightarrow> c
      | Some l \<Rightarrow> l)"

definition lower :: "string \<Rightarrow> string" where
  "lower s = map lower_char s"

definition strip :: "string \<Rightarrow> string" where
  "strip s = rev (dropWhile is_space (rev (dropWhile is_space s)))"

text \<open>\<open>s.split(c)\<close> for a one-character separator: never an empty list.\<close>

primrec split :: "char \<Rightarrow> string \<Rightarrow> string list" where
  "split c [] = [[]]"
| "split c (x # xs) =
     (if x = c then [] # split c xs
      else (case split c xs of [] \<Rightarrow> [[x]] | w # ws \<Rightarrow> (x # w) # ws))"

text \<open>The decimal digit \<open>n\<close>, for \<open>n < 10\<close>.\<close>

definition digit_char :: "nat \<Rightarrow> char" where
  "digit_char n = ''0123456789'' ! n"

fun str_nat :: "nat \<Rightarrow> string" where
  "str_nat n = (if n < 10 then [digit_char n] else str_nat (n div 10) @ [digit_char (n mod 10)])"

declare str_nat.simps [simp del]

text \<open>\<open>str(i)\<close>, as an f-string formats an integer.\<close>

definition str_int :: "int \<Rightarrow> string" where
  "str_int i = (if i < 0 then CHR ''-'' # str_nat (nat (- i)) else str_nat (nat i))"

section \<open>The tariff\<close>

text \<open>\<open>calc_bill_bd\<close>, operation by operation: Python's \<open>+\<close> associates to the left.\<close>

definition calc_bill_bd :: "double \<Rightarrow> double" where
  "calc_bill_bd kwh =
     (if dle kwh (float_int 50) then
        fmul kwh (float_lit (375 / 100))
      else if dle kwh (float_int 75) then
        fadd (fmul (float_int 50) (float_lit (375 / 100)))
             (fmul (fsub kwh (float_int 50)) (float_lit (419 / 100)))
      else if dle kwh (float_int 200) then
        fadd (fadd (fmul (float_int 50) (float_lit (375 / 100))) (fmul (float_int 25) (float_lit (419 / 100))))
             (fmul (fsub kwh (float_int 75)) (float_lit (572 / 100)))
      else if dle kwh (float_int 300) then
        fadd (fadd (fadd (fmul (float_int 50) (float_lit (375 / 100))) (fmul (float_int 25) (float_lit (419 / 100))))
                   (fmul (float_int 125) (float_lit (572 / 100))))
             (fmul (fsub kwh (float_int 200)) (float_lit (600 / 100)))
      else if dle kwh (float_int 400) then
        fadd (fadd (fadd (fadd (fmul (float_int 50) (float_lit (375 / 100))) (fmul (float_int 25) (float_lit (419 / 100))))
                         (fmul (float_int 125) (float_lit (572 / 100))))
                   (fmul (float_int 100) (float_lit (600 / 100))))
             (fmul (fsub kwh (float_int 300)) (float_lit (634 / 100)))
      else
        fadd (fadd (fadd (fadd (fadd (fmul (float_int 50) (float_lit (375 / 100))) (fmul (float_int 25) (float_lit (419 / 100))))
                               (fmul (float_int 125) (float_lit (572 / 100))))
                         (fmul (float_int 100) (float_lit (600 / 100))))
                   (fmul (float_int 100) (float_lit (634 / 100))))
             (fmul (fsub kwh (float_int 400)) (float_lit (994 / 100))))"

text \<open>
  The six branches of \<open>calc_bill_bd\<close> as functions of their own, to compare the values of
  two neighbours at the threshold between them.
\<close>

definition tier1 :: "double \<Rightarrow> double" where
  "tier1 kwh = fmul kwh (float_lit (375 / 100))"

definition tier2 :: "double \<Rightarrow> double" where
  "tier2 kwh =
     fadd (fmul (float_int 50) (float_lit (375 / 100)))
          (fmul (fsub kwh (float_int 50)) (float_lit (419 / 100)))"

definition tier3 :: "double \<Rightarrow> double" where
  "tier3 kwh =
     fadd (fadd (fmul (float_int 50) (float_lit (375 / 100))) (fmul (float_int 25) (float_lit (419 / 100))))
          (fmul (fsub kwh (float_int 75)) (float_lit (572 / 100)))"

definition tier4 :: "double \<Rightarrow> double" where
  "tier4 kwh =
     fadd (fadd (fadd (fmul (float_int 50) (float_lit (375 / 100))) (fmul (float_int 25) (float_lit (419 / 100))))
                (fmul (float_int 125) (float_lit (572 / 100))))
          (fmul (fsub kwh (float_int 200)) (float_lit (600 / 100)))"

definition tier5 :: "double \<Rightarrow> double" where
  "tier5 kwh =
     fadd (fadd (fadd (fadd (fmul (float_int 50) (float_lit (375 / 100))) (fmul (float_int 25) (float_lit (419 / 100))))
                      (fmul (float_int 125) (float_lit (572 / 100))))
                (fmul (float_int 100) (float_lit (600 / 100))))
          (fmul (fsub kwh (float_int 300)) (float_lit (634 / 100)))"

definition tier6 :: "double \<Rightarrow> double" where
  "tier6 kwh =
     fadd (fadd (fadd (fadd (fadd (fmul (float_int 50) (float_lit (375 / 100))) (fmul (float_int 25) (float_lit (419 / 100))))
                            (fmul (float_int 125) (float_lit (572 / 100))))
                      (fmul (float_int 100) (float_lit (600 / 100))))
                (fmul (float_int 100) (float_lit (634 / 100))))
          (fmul (fsub kwh (float_int 400)) (float_lit (994 / 100)))"

section \<open>The clock\<close>

text \<open>
  \<open>datetime.now()\<close>, as far as the code reads it: the day (its proleptic Gregorian
  ordinal, \<open>date.toordinal()\<close>: day 1 is a Monday), the hour and the minute.
\<close>

record datetime =
  ordinal :: nat
  hour :: nat
  minute :: nat

text \<open>\<open>date.weekday()\<close>: Monday is 0.\<close>

definition weekday :: "datetime \<Rightarrow> nat" where
  "weekday t = (ordinal t + 6) mod 7"

definition day_names :: "string list" where
  "day_names = [''Monday'', ''Tuesday'', ''Wednesday'', ''Thursday'', ''Friday'', ''Saturday'', ''Sunday'']"

text \<open>\<open>now.strftime('%A')\<close> (the process never sets a locale, so the names are English).\<close>

definition strftime_A :: "datetime \<Rightarrow> string" where
  "strftime_A t = day_names ! weekday t"

text \<open>A field of two digits, zero-padded (an hour or a minute: below 100).\<close>

definition two_digits :: "nat \<Rightarrow> string" where
  "two_digits n = [digit_char (n div 10 mod 10), digit_char (n mod 10)]"

text \<open>\<open>now.strftime('%H:%M')\<close>.\<close>

definition strftime_HM :: "datetime \<Rightarrow> string" where
  "strftime_HM t = two_digits (hour t) @ '':'' @ two_digits (minute t)"

section \<open>The cloud API\<close>

text \<open>
  What one HTTP request comes back with: \<open>requests\<close> raises (no connection, timeout), or
  there is a response with a status code and a body, which parses as JSON or does not.
\<close>

datatype http_reply = Raises | Response int "pyval option"

text \<open>\<open>r = requests.get(...); r.raise_for_status(); r.json()\<close>\<close>

fun get_json :: "http_reply \<Rightarrow> exn + pyval" where
  "get_json Raises = Inl ConnectionError"
| "get_json (Response code body) =
     (if 400 \<le> code \<and> code < 600 then Inl HTTPError
      else (case body of None \<Rightarrow> Inl JSONDecodeError | Some v \<Rightarrow> Inr v))"

text \<open>
  \<open>sign\<close> concatenates \<open>access_id + (token or '') + t + ...\<close>: a token that is truthy and
  not a string raises TypeError. The signature itself only travels in the headers of the
  request and is not modelled.
\<close>

definition sign :: "pyval \<Rightarrow> exn + unit" where
  "sign token = (if \<not> truthy token then Inr () else (case token of PStr s \<Rightarrow> Inr () | _ \<Rightarrow> Inl TypeError))"

text \<open>The body of \<open>get_token\<close>'s \<open>try\<close>, given the reply to its request.\<close>

definition get_token_try :: "http_reply \<Rightarrow> exn + pyval" where
  "get_token_try reply =
     (case get_json reply of Inl e \<Rightarrow> Inl e | Inr result \<Rightarrow>
      (case py_contains ''result'' result of Inl e \<Rightarrow> Inl e | Inr has_result \<Rightarrow>
       if \<not> has_result then Inr PNone
       else (case py_getitem result ''result'' of Inl e \<Rightarrow> Inl e | Inr inner \<Rightarrow>
         (case py_contains ''access_token'' inner of Inl e \<Rightarrow> Inl e | Inr has_token \<Rightarrow>
          if has_token then py_getitem inner ''access_token'' else Inr PNone))))"

definition get_token :: "http_reply \<Rightarrow> pyval" where
  "get_token reply = (case get_token_try reply of Inl e \<Rightarrow> PNone | Inr token \<Rightarrow> token)"

text \<open>
  \<open>get_device_info\<close>: the token request, then the metadata request. Everything is inside
  its \<open>try\<close>, so any exception makes the result \<open>None\<close>.
\<close>

definition get_device_info_try :: "http_reply \<Rightarrow> http_reply \<Rightarrow> exn + pyval" where
  "get_device_info_try token_r info_r =
     (let token = get_token token_r in
      if \<not> truthy token then Inr PNone
      else (case sign token of Inl e \<Rightarrow> Inl e | Inr u \<Rightarrow>
        (case get_json info_r of Inl e \<Rightarrow> Inl e | Inr result \<Rightarrow>
         (case py_contains ''result'' result of Inl e \<Rightarrow> Inl e | Inr has_result \<Rightarrow>
          if has_result then py_getitem result ''result'' else Inr PNone))))"

definition get_device_info :: "http_reply \<Rightarrow> http_reply \<Rightarrow> pyval" where
  "get_device_info token_r info_r =
     (case get_device_info_try token_r info_r of Inl e \<Rightarrow> PNone | Inr v \<Rightarrow> v)"

text \<open>
  \<open>next((f(d['value']) for d in data if d['code'] == code), default)\<close>: the generator stops at
  the first item whose code matches; an item that cannot be indexed raises before that.
\<close>

fun find_code :: "string \<Rightarrow> pyval list \<Rightarrow> exn + pyval option" where
  "find_code code [] = Inr None"
| "find_code code (d # ds) =
     (case py_getitem d ''code'' of
        Inl e \<Rightarrow> Inl e
      | Inr c \<Rightarrow> if c = PStr code then Inr (Some d) else find_code code ds)"

definition next_value :: "string \<Rightarrow> (pyval \<Rightarrow> exn + pyval) \<Rightarrow> pyval \<Rightarrow> pyval list \<Rightarrow> exn + pyval" where
  "next_value code f dflt data =
     (case find_code code data of
        Inl e \<Rightarrow> Inl e
      | Inr None \<Rightarrow> Inr dflt
      | Inr (Some d) \<Rightarrow> (case py_getitem d ''value'' of Inl e \<Rightarrow> Inl e | Inr v \<Rightarrow> f v))"

text \<open>The tuple \<open>voltage, current, power, switch, is_online\<close>.\<close>

type_synonym telemetry = "pyval \<times> pyval \<times> pyval \<times> pyval \<times> pyval"

definition zeroed :: telemetry where
  "zeroed = (PInt 0, PInt 0, PInt 0, PBool False, PBool False)"

text \<open>
  The replies to the four requests one call of \<open>get_device_data\<close> can make, in their order: the
  token and the metadata (inside \<open>get_device_info\<close>), then a second token and the status.
\<close>

record fetch_env =
  info_token_reply :: http_reply
  info_reply :: http_reply
  status_token_reply :: http_reply
  status_reply :: http_reply

text \<open>The four data points read from the status array, and the tuple returned.\<close>

definition read_status :: "pyval list \<Rightarrow> pyval \<Rightarrow> exn + telemetry" where
  "read_status data is_online =
     (case next_value ''switch_1'' Inr (PBool False) data of Inl e \<Rightarrow> Inl e | Inr switch \<Rightarrow>
      (case next_value ''cur_voltage'' (\<lambda>v. py_truediv v 10) (PInt 0) data of Inl e \<Rightarrow> Inl e | Inr voltage \<Rightarrow>
       (case next_value ''cur_current'' (\<lambda>v. py_truediv v 1000) (PInt 0) data of Inl e \<Rightarrow> Inl e | Inr current \<Rightarrow>
        (case next_value ''cur_power'' (\<lambda>v. py_truediv v 10) (PInt 0) data of Inl e \<Rightarrow> Inl e | Inr power' \<Rightarrow>
         Inr (voltage, current, power', switch, is_online)))))"

text \<open>The body of the \<open>try\<close> of \<open>get_device_data\<close>, for a device that is online.\<close>

definition get_status_try :: "fetch_env \<Rightarrow> pyval \<Rightarrow> exn + telemetry" where
  "get_status_try env is_online =
     (let token = get_token (status_token_reply env) in
      if \<not> truthy token then Inr zeroed
      else (case sign token of Inl e \<Rightarrow> Inl e | Inr u \<Rightarrow>
        (case get_json (status_reply env) of Inl e \<Rightarrow> Inl e | Inr response_data \<Rightarrow>
         (case py_contains ''result'' response_data of Inl e \<Rightarrow> Inl e | Inr has_result \<Rightarrow>
          if \<not> has_result then Inr zeroed
          else (case py_getitem response_data ''result'' of Inl e \<Rightarrow> Inl e | Inr result \<Rightarrow>
            (case py_iter result of Inl e \<Rightarrow> Inl e | Inr data \<Rightarrow> read_status data is_online))))))"

text \<open>
  \<open>get_device_data\<close>. The call \<open>device_info.get('online', False)\<close> stands before the \<open>try\<close>:
  an exception there leaves the function (\<open>Inl\<close>).
\<close>

definition get_device_data :: "fetch_env \<Rightarrow> exn + telemetry" where
  "get_device_data env =
     (let device_info = get_device_info (info_token_reply env) (info_reply env) in
      if \<not> truthy device_info then Inr zeroed
      else (case py_get device_info ''online'' (PBool False) of
              Inl e \<Rightarrow> Inl e
            | Inr is_online \<Rightarrow>
                if \<not> truthy is_online then Inr zeroed
                else (case get_status_try env is_online of Inl e \<Rightarrow> Inr zeroed | Inr t \<Rightarrow> Inr t)))"

section \<open>The database\<close>

record device_row =
  dev_device_id :: string
  dev_device_name :: string
  dev_access_id :: string
  dev_access_secret :: string
  dev_created_at :: int

record reading_row =
  rd_device_id :: string
  rd_ts :: int
  rd_voltage :: pyval
  rd_current :: pyval
  rd_power :: pyval

record schedule_row =
  sch_id :: int
  sch_device_id :: string
  sch_schedule_name :: string
  sch_start_time :: string
  sch_end_time :: string
  sch_days :: string
  sch_enabled :: int
  sch_created_at :: int

record database =
  devices :: "device_row list"
  readings :: "reading_row list"
  schedules :: "schedule_row list"

section \<open>The schedule evaluator\<close>

text \<open>A row of the evaluator's query: a schedule joined with its device.\<close>

record joined_row =
  j_schedule_id :: int
  j_device_id :: string
  j_schedule_name :: string
  j_start_time :: string
  j_end_time :: string
  j_days :: string
  j_access_id :: string
  j_access_secret :: string
  j_device_name :: string

definition join_row :: "schedule_row \<Rightarrow> device_row \<Rightarrow> joined_row" where
  "join_row s d =
     \<lparr> j_schedule_id = sch_id s, j_device_id = sch_device_id s,
       j_schedule_name = sch_schedule_name s, j_start_time = sch_start_time s,
       j_end_time = sch_end_time s, j_days = sch_days s,
       j_access_id = dev_access_id d, j_access_secret = dev_access_secret d,
       j_device_name = dev_device_name d \<rparr>"

text \<open>
  \<open>SELECT ... FROM schedules s JOIN devices d ON s.device_id = d.device_id WHERE s.enabled = 1\<close>.
  The query has no \<open>ORDER BY\<close>; the rows come here in the order of the schedules table.
\<close>

definition enabled_schedules :: "database \<Rightarrow> joined_row list" where
  "enabled_schedules db =
     concat (map (\<lambda>s. map (join_row s) (filter (\<lambda>d. dev_device_id d = sch_device_id s) (devices db)))
                 (filter (\<lambda>s. sch_enabled s = 1) (schedules db)))"

datatype transition = ON | OFF

definition transition_name :: "transition \<Rightarrow> string" where
  "transition_name k = (case k of ON \<Rightarrow> ''ON'' | OFF \<Rightarrow> ''OFF'')"

text \<open>\<open>f"{schedule_id}_ON_{current_day}"\<close> and \<open>f"{schedule_id}_OFF_{current_day}"\<close>\<close>

definition tracker_key :: "int \<Rightarrow> transition \<Rightarrow> string \<Rightarrow> string" where
  "tracker_key schedule_id k current_day = str_int schedule_id @ ''_'' @ transition_name k @ ''_'' @ current_day"

text \<open>The global dict \<open>schedule_execution_tracker\<close>.\<close>

type_synonym tracker = "string \<rightharpoonup> string"

text \<open>
  The replies to the two requests of one command: the token request and the POST of the
  command.
\<close>

record command_env =
  token_reply :: http_reply
  post_reply :: http_reply

datatype outcome = Success | Failed int | No_token | Error exn

text \<open>
  The \<open>try\<close> block that sends one command: \<open>Success\<close> is the branch that marks the
  tracker.
\<close>

definition send_command :: "command_env \<Rightarrow> outcome" where
  "send_command env =
     (let token = get_token (token_reply env) in
      if truthy token then
        (case sign token of Inl e \<Rightarrow> Error e | Inr u \<Rightarrow>
          (case post_reply env of
             Raises \<Rightarrow> Error ConnectionError
           | Response code body \<Rightarrow> if code = 200 then Success else Failed code))
      else No_token)"

text \<open>One command the evaluator attempted: when, for which schedule, which way, and how it went.\<close>

record attempt =
  at_time :: string
  at_day :: string
  at_schedule :: int
  at_device :: string
  at_kind :: transition
  at_outcome :: outcome

text \<open>
  The part of the loop body after the day check, for one transition: the tracker check,
  the command, and the mark on success.
\<close>

definition fire :: "command_env \<Rightarrow> string \<Rightarrow> string \<Rightarrow> joined_row \<Rightarrow> transition \<Rightarrow> tracker \<Rightarrow> tracker \<times> attempt list" where
  "fire env current_time current_day row k tr =
     (let key = tracker_key (j_schedule_id row) k current_day in
      if tr key = Some current_time then (tr, [])
      else
        (let res = send_command env;
             a = \<lparr> at_time = current_time, at_day = current_day, at_schedule = j_schedule_id row,
                   at_device = j_device_id row, at_kind = k, at_outcome = res \<rparr>
         in (if res = Success then tr(key \<mapsto> current_time) else tr, [a])))"

text \<open>The body of the \<open>for\<close> loop over the schedules.\<close>

definition check_schedule :: "command_env \<Rightarrow> string \<Rightarrow> string \<Rightarrow> joined_row \<Rightarrow> tracker \<Rightarrow> tracker \<times> attempt list" where
  "check_schedule env current_time current_day row tr =
     (let schedule_days = map (\<lambda>day. lower (strip day)) (split CHR '','' (j_days row)) in
      if current_day \<notin> set schedule_days then (tr, [])
      else if current_time = j_start_time row then fire env current_time current_day row ON tr
      else if current_time = j_end_time row then fire env current_time current_day row OFF tr
      else (tr, []))"

fun check_rows :: "(int \<Rightarrow> command_env) \<Rightarrow> string \<Rightarrow> string \<Rightarrow> joined_row list \<Rightarrow> tracker \<Rightarrow> tracker \<times> attempt list" where
  "check_rows cloud current_time current_day [] tr = (tr, [])"
| "check_rows cloud current_time current_day (row # rows) tr =
     (let (tr1, as1) = check_schedule (cloud (j_schedule_id row)) current_time current_day row tr;
          (tr2, as2) = check_rows cloud current_time current_day rows tr1
      in (tr2, as1 @ as2))"

text \<open>
  \<open>check_and_execute_schedules\<close>, given the clock reading it takes: \<open>cloud\<close> gives, for each
  schedule id (the primary key of the schedules table), the replies its command would get in this
  evaluation. The result is the tracker afterwards and the commands attempted, in order.
\<close>

definition check_and_execute_schedules :: "(int \<Rightarrow> command_env) \<Rightarrow> datetime \<Rightarrow> database \<Rightarrow> tracker \<Rightarrow> tracker \<times> attempt list" where
  "check_and_execute_schedules cloud now db tr =
     (let current_time = strftime_HM now;
          current_day = lower (strftime_A now)
      in check_rows cloud current_time current_day (enabled_schedules db) tr)"

section \<open>The evaluator inside the background loop\<close>

text \<open>
  The background loop calls the evaluator when the minute of the clock differs from
  \<open>last_schedule_check_minute\<close>, and then stores the minute. The state is that latch
  and the tracker. (The evaluator reads the clock again when it starts; both readings are taken
  as one here.)
\<close>

record loop_state =
  last_schedule_check_minute :: int
  schedule_execution_tracker :: tracker

definition initial_state :: loop_state where
  "initial_state = \<lparr> last_schedule_check_minute = - 1, schedule_execution_tracker = Map.empty \<rparr>"

definition schedule_tick :: "(int \<Rightarrow> command_env) \<Rightarrow> datetime \<Rightarrow> database \<Rightarrow> loop_state \<Rightarrow> loop_state \<times> attempt list" where
  "schedule_tick cloud now db st =
     (let current_minute = int (minute now) in
      if current_minute \<noteq> last_schedule_check_minute st then
        (let (tr, as) = check_and_execute_schedules cloud now db (schedule_execution_tracker st)
         in (\<lparr> last_schedule_check_minute = current_minute, schedule_execution_tracker = tr \<rparr>, as))
      else (st, []))"

text \<open>
  The loop over the clock readings of its successive iterations; \<open>cloud now\<close> is the cloud
  as the evaluation at \<open>now\<close> meets it.
\<close>

fun run_ticks :: "(datetime \<Rightarrow> int \<Rightarrow> command_env) \<Rightarrow> database \<Rightarrow> datetime list \<Rightarrow> loop_state \<Rightarrow> loop_state \<times> attempt list" where
  "run_ticks cloud db [] st = (st, [])"
| "run_ticks cloud db (now # nows) st =
     (let (st1, as1) = schedule_tick (cloud now) now db st;
          (st2, as2) = run_ticks cloud db nows st1
      in (st2, as1 @ as2))"

text \<open>One clock reading in every minute of the day with the given ordinal.\<close>

definition minute_of_day :: "nat \<Rightarrow> nat \<Rightarrow> datetime" where
  "minute_of_day day m = \<lparr> ordinal = day, hour = m div 60, minute = m mod 60 \<rparr>"

definition every_minute :: "nat \<Rightarrow> datetime list" where
  "every_minute day = map (minute_of_day day) [0..<1440]"

text \<open>A cloud where every command goes through: a token that is a string, and status 200.\<close>

definition succeeds :: "command_env \<Rightarrow> bool" where
  "succeeds env = (send_command env = Success)"

definition good_env :: command_env where
  "good_env =
     \<lparr> token_reply = Response 200 (Some (PDict [(''result'', PDict [(''access_token'', PStr ''tok'')]), (''success'', PBool True)])),
       post_reply = Response 200 (Some (PDict [(''success'', PBool True)])) \<rparr>"

section \<open>The poll loop and the device registry\<close>

text \<open>
  \<open>INSERT OR IGNORE INTO readings ...\<close> under \<open>UNIQUE(device_id, ts)\<close>: a row whose device and
  timestamp are in the table already is dropped. (The surrogate \<open>id\<close> column is never read by the
  code modelled here and is left out; foreign keys are not enforced, the connection never
  switches them on.)
\<close>

definition reading_key :: "reading_row \<Rightarrow> string \<times> int" where
  "reading_key r = (rd_device_id r, rd_ts r)"

definition insert_or_ignore :: "reading_row \<Rightarrow> reading_row list \<Rightarrow> reading_row list" where
  "insert_or_ignore r rows = (if reading_key r \<in> set (map reading_key rows) then rows else rows @ [r])"

text \<open>The uniqueness constraint of the table, as a property of its rows.\<close>

definition unique_readings :: "reading_row list \<Rightarrow> bool" where
  "unique_readings rows = distinct (map reading_key rows)"

text \<open>\<open>SELECT 1 FROM devices WHERE device_id = ?\<close>, fetched and tested.\<close>

definition device_exists :: "database \<Rightarrow> string \<Rightarrow> bool" where
  "device_exists db device_id = (\<exists>d \<in> set (devices db). dev_device_id d = device_id)"

datatype poll_event =
    No_longer_exists
  | Offline
  | Stored
  | Deleted_before_insert
  | Collect_error exn

text \<open>
  The body of the loop over the devices of one cycle, for one row \<open>(device_id, access_id,
  access_secret)\<close> of the list read at the start of the cycle; \<open>ts\<close> is \<open>int(time.time())\<close>.
  An exception of \<open>get_device_data\<close> ends in the \<open>except\<close> of the body.
\<close>

definition poll_device :: "fetch_env \<Rightarrow> int \<Rightarrow> string \<times> string \<times> string \<Rightarrow> database \<Rightarrow> database \<times> poll_event" where
  "poll_device env ts dev db =
     (let device_id = fst dev in
      if \<not> device_exists db device_id then (db, No_longer_exists)
      else (case get_device_data env of
              Inl e \<Rightarrow> (db, Collect_error e)
            | Inr (voltage, current, power', switch, is_online) \<Rightarrow>
                if truthy is_online then
                  (if device_exists db device_id then
                     (db \<lparr> readings := insert_or_ignore
                            \<lparr> rd_device_id = device_id, rd_ts = ts, rd_voltage = voltage,
                              rd_current = current, rd_power = power' \<rparr> (readings db) \<rparr>, Stored)
                   else (db, Deleted_before_insert))
                else (db, Offline)))"

fun poll_devices :: "(string \<Rightarrow> fetch_env) \<Rightarrow> (string \<Rightarrow> int) \<Rightarrow> (string \<times> string \<times> string) list \<Rightarrow> database \<Rightarrow> database \<times> (string \<times> poll_event) list" where
  "poll_devices cloud clock [] db = (db, [])"
| "poll_devices cloud clock (dev # devs) db =
     (let (db1, ev) = poll_device (cloud (fst dev)) (clock (fst dev)) dev db;
          (db2, evs) = poll_devices cloud clock devs db1
      in (db2, (fst dev, ev) # evs))"

text \<open>
  One cycle: \<open>SELECT device_id, access_id, access_secret FROM devices\<close>, then the loop.
  \<open>cloud\<close> gives the replies the requests for a device get in this cycle, \<open>clock\<close> the time at
  which its reading is taken.
\<close>

definition collect_cycle :: "(string \<Rightarrow> fetch_env) \<Rightarrow> (string \<Rightarrow> int) \<Rightarrow> database \<Rightarrow> database \<times> (string \<times> poll_event) list" where
  "collect_cycle cloud clock db =
     poll_devices cloud clock
       (map (\<lambda>d. (dev_device_id d, dev_access_id d, dev_access_secret d)) (devices db)) db"

text \<open>The database after \<open>n\<close> cycles of the loop; \<open>cloud k\<close> and \<open>clock k\<close> belong to cycle \<open>k\<close>.\<close>

fun collect_cycles :: "(nat \<Rightarrow> string \<Rightarrow> fetch_env) \<Rightarrow> (nat \<Rightarrow> string \<Rightarrow> int) \<Rightarrow> nat \<Rightarrow> database \<Rightarrow> database" where
  "collect_cycles cloud clock 0 db = db"
| "collect_cycles cloud clock (Suc n) db =
     fst (collect_cycle (cloud n) (clock n) (collect_cycles cloud clock n db))"

text \<open>
  \<open>delete_device\<close>: 404 when the device is not registered; otherwise its readings are deleted,
  then its row, and the answer is 200. No statement touches the schedules.
\<close>

definition delete_device :: "string \<Rightarrow> database \<Rightarrow> database \<times> int" where
  "delete_device device_id db =
     (if \<not> device_exists db device_id then (db, 404)
      else (db \<lparr> readings := filter (\<lambda>r. rd_device_id r \<noteq> device_id) (readings db),
                devices := filter (\<lambda>d. dev_device_id d \<noteq> device_id) (devices db) \<rparr>, 200))"

subsection \<open>A small installation\<close>

text \<open>One plug and one schedule on it, for Mondays; the dates used with it are 2026-11-02 (ordinal
  739922, a Monday) and the days after.\<close>

definition demo_device :: device_row where
  "demo_device = \<lparr> dev_device_id = ''plug1'', dev_device_name = ''Heater'', dev_access_id = ''id'',
                    dev_access_secret = ''secret'', dev_created_at = 0 \<rparr>"

definition demo_schedule :: "string \<Rightarrow> string \<Rightarrow> schedule_row" where
  "demo_schedule start stop =
     \<lparr> sch_id = 1, sch_device_id = ''plug1'', sch_schedule_name = ''work'', sch_start_time = start,
       sch_end_time = stop, sch_days = ''monday'', sch_enabled = 1, sch_created_at = 0 \<rparr>"

definition demo_db :: "string \<Rightarrow> string \<Rightarrow> database" where
  "demo_db start stop = \<lparr> devices = [demo_device], readings = [], schedules = [demo_schedule start stop] \<rparr>"

text \<open>
  A plug that is online and reports 229.1 V, 0.152 A and 33.7 W; the same plug reported offline;
  and a metadata response whose \<open>result\<close> is a string instead of an object.
\<close>

definition token_ok :: http_reply where
  "token_ok = Response 200 (Some (PDict [(''result'', PDict [(''access_token'', PStr ''tok'')]), (''success'', PBool True)]))"

definition status_ok :: http_reply where
  "status_ok = Response 200 (Some (PDict [(''result'', PList
      [PDict [(''code'', PStr ''switch_1''), (''value'', PBool True)],
       PDict [(''code'', PStr ''cur_current''), (''value'', PInt 152)],
       PDict [(''code'', PStr ''cur_power''), (''value'', PInt 337)],
       PDict [(''code'', PStr ''cur_voltage''), (''value'', PInt 2291)]]), (''success'', PBool True)]))"

definition online_env :: fetch_env where
  "online_env = \<lparr> info_token_reply = token_ok,
      info_reply = Response 200 (Some (PDict [(''result'', PDict [(''id'', PStr ''plug1''), (''online'', PBool True)])])),
      status_token_reply = token_ok, status_reply = status_ok \<rparr>"

definition offline_env :: fetch_env where
  "offline_env = online_env \<lparr> info_reply :=
      Response 200 (Some (PDict [(''result'', PDict [(''id'', PStr ''plug1''), (''online'', PBool False)])])) \<rparr>"

definition malformed_env :: fetch_env where
  "malformed_env = online_env \<lparr> info_reply :=
      Response 200 (Some (PDict [(''result'', PStr ''plug1''), (''success'', PBool True)])) \<rparr>"

text \<open>The installation with one reading of the plug stored.\<close>

definition demo_reading :: reading_row where
  "demo_reading = \<lparr> rd_device_id = ''plug1'', rd_ts = 1762070400, rd_voltage = PFloat (Finite 229),
                     rd_current = PFloat (Finite (1 / 8)), rd_power = PFloat (Finite 28) \<rparr>"

definition metered_db :: database where
  "metered_db = \<lparr> devices = [demo_device], readings = [demo_reading],
                  schedules = [demo_schedule ''08:00'' ''18:00''] \<rparr>"

text \<open>Three clouds where the command fails: no token, a status 500, no connection.\<close>

definition no_token_env :: command_env where
  "no_token_env =
     \<lparr> token_reply = Response 200 (Some (PDict [(''success'', PBool False), (''code'', PInt 1004), (''msg'', PStr ''sign invalid'')])),
       post_reply = Response 200 (Some (PDict [(''success'', PBool True)])) \<rparr>"

definition rejected_env :: command_env where
  "rejected_env = good_env \<lparr> post_reply := Response 500 None \<rparr>"

definition unreachable_env :: command_env where
  "unreachable_env = good_env \<lparr> post_reply := Raises \<rparr>"

section \<open>Properties of the schedule evaluator\<close>

subsection \<open>The strings of the clock\<close>

lemma digit_char_inj: "a < 10 \<Longrightarrow> b < 10 \<Longrightarrow> (digit_char a = digit_char b) = (a = b)"
  unfolding digit_char_def by (rule nth_eq_iff_index_eq) simp_all

lemma two_digits_inj: "a < 100 \<Longrightarrow> b < 100 \<Longrightarrow> (two_digits a = two_digits b) = (a = b)"
proof -
  assume a: "a < 100" and b: "b < 100"
  have da: "a div 10 mod 10 = a div 10" and db: "b div 10 mod 10 = b div 10"
    using a b by simp_all
  have la: "a div 10 < 10" and lb: "b div 10 < 10"
    using a b by simp_all
  have "(two_digits a = two_digits b) = (a div 10 = b div 10 \<and> a mod 10 = b mod 10)"
    by (simp add: two_digits_def digit_char_inj da db la lb)
  also have "\<dots> = (a = b)"
    by (metis div_mult_mod_eq)
  finally show ?thesis .
qed

lemma length_two_digits: "length (two_digits n) = 2"
  by (simp add: two_digits_def)

lemma strftime_HM_inj:
  "hour t < 24 \<Longrightarrow> minute t < 60 \<Longrightarrow> hour u < 24 \<Longrightarrow> minute u < 60 \<Longrightarrow>
   (strftime_HM t = strftime_HM u) = (hour t = hour u \<and> minute t = minute u)"
  by (simp add: strftime_HM_def two_digits_inj length_two_digits)

lemma strftime_HM_minute_of_day:
  assumes "m < 1440" "n < 1440"
  shows "(strftime_HM (minute_of_day d m) = strftime_HM (minute_of_day e n)) = (m = n)"
proof -
  have "(strftime_HM (minute_of_day d m) = strftime_HM (minute_of_day e n))
        = (m div 60 = n div 60 \<and> m mod 60 = n mod 60)"
    using assms by (subst strftime_HM_inj) (simp_all add: minute_of_day_def)
  also have "\<dots> = (m = n)" by (metis div_mult_mod_eq)
  finally show ?thesis .
qed

subsection \<open>One schedule, and ticks that fire nothing\<close>

lemma enabled_schedules_single:
  assumes "filter (\<lambda>s. sch_enabled s = 1) (schedules db) = [s]"
    and "filter (\<lambda>d. dev_device_id d = sch_device_id s) (devices db) = [d]"
  shows "enabled_schedules db = [join_row s d]"
  using assms by (simp add: enabled_schedules_def)

lemma check_single_row:
  assumes "enabled_schedules db = [row]"
  shows "check_and_execute_schedules cloud now db tr =
         check_schedule (cloud (j_schedule_id row)) (strftime_HM now) (lower (strftime_A now)) row tr"
  using assms by (simp add: check_and_execute_schedules_def split: prod.splits)

lemma lower_strftime_A:
  "lower (strftime_A now) =
     [''monday'', ''tuesday'', ''wednesday'', ''thursday'', ''friday'', ''saturday'', ''sunday''] ! weekday now"
proof -
  have "weekday now < 7" by (simp add: weekday_def)
  then consider "weekday now = 0" | "weekday now = 1" | "weekday now = 2" | "weekday now = 3"
    | "weekday now = 4" | "weekday now = 5" | "weekday now = 6"
    by linarith
  then show ?thesis
    by cases (simp_all add: strftime_A_def day_names_def lower_def lower_char_def)
qed

lemma run_ticks_append:
  "run_ticks cloud db (xs @ ys) st =
     (let (st1, as1) = run_ticks cloud db xs st;
          (st2, as2) = run_ticks cloud db ys st1
      in (st2, as1 @ as2))"
  by (induction xs arbitrary: st) (simp_all split: prod.splits)

lemma run_ticks_quiet:
  assumes "\<And>t tr. t \<in> set ts \<Longrightarrow> check_and_execute_schedules (cloud t) t db tr = (tr, [])"
  shows "snd (run_ticks cloud db ts st) = []
       \<and> schedule_execution_tracker (fst (run_ticks cloud db ts st)) = schedule_execution_tracker st
       \<and> last_schedule_check_minute (fst (run_ticks cloud db ts st)) =
           (if ts = [] then last_schedule_check_minute st else int (minute (last ts)))"
  using assms
proof (induction ts arbitrary: st)
  case Nil
  then show ?case by simp
next
  case (Cons t ts)
  have q: "check_and_execute_schedules (cloud t) t db tr = (tr, [])" for tr
    using Cons.prems by simp
  define st1 where "st1 = fst (schedule_tick (cloud t) t db st)"
  have st1: "schedule_tick (cloud t) t db st = (st1, [])"
    unfolding st1_def by (simp add: schedule_tick_def Let_def q)
  have tr1: "schedule_execution_tracker st1 = schedule_execution_tracker st"
    unfolding st1_def by (simp add: schedule_tick_def Let_def q)
  have l1: "last_schedule_check_minute st1 = int (minute t)"
    unfolding st1_def by (simp add: schedule_tick_def Let_def q)
  have ih: "snd (run_ticks cloud db ts st1) = []
       \<and> schedule_execution_tracker (fst (run_ticks cloud db ts st1)) = schedule_execution_tracker st1
       \<and> last_schedule_check_minute (fst (run_ticks cloud db ts st1)) =
           (if ts = [] then last_schedule_check_minute st1 else int (minute (last ts)))"
    using Cons.IH[of st1] Cons.prems by simp
  show ?case using ih st1 tr1 l1 by (simp split: prod.splits)
qed


lemma run_ticks_append_fst:
  "fst (run_ticks cloud db (xs @ ys) st) = fst (run_ticks cloud db ys (fst (run_ticks cloud db xs st)))"
  by (simp add: run_ticks_append split: prod.splits)

lemma run_ticks_append_snd:
  "snd (run_ticks cloud db (xs @ ys) st) =
     snd (run_ticks cloud db xs st) @ snd (run_ticks cloud db ys (fst (run_ticks cloud db xs st)))"
  by (simp add: run_ticks_append split: prod.splits)

lemma run_ticks_Cons_fst:
  "fst (run_ticks cloud db (t # ts) st) = fst (run_ticks cloud db ts (fst (schedule_tick (cloud t) t db st)))"
  by (simp split: prod.splits)

lemma run_ticks_Cons_snd:
  "snd (run_ticks cloud db (t # ts) st) =
     snd (schedule_tick (cloud t) t db st) @ snd (run_ticks cloud db ts (fst (schedule_tick (cloud t) t db st)))"
  by (simp split: prod.splits)

lemma upt_split_at: "a \<le> b \<Longrightarrow> b < c \<Longrightarrow> [a..<c] = [a..<b] @ b # [Suc b..<c]"
proof -
  assume ab: "a \<le> b" and bc: "b < c"
  have "[a..<b + (c - b)] = [a..<b] @ [b..<b + (c - b)]"
    using ab by (rule upt_add_eq_append)
  moreover have "b + (c - b) = c" using bc by simp
  moreover have "[b..<c] = b # [Suc b..<c]" using bc by (rule upt_conv_Cons)
  ultimately show ?thesis by simp
qed

lemma schedule_days_monday: "map (\<lambda>day. lower (strip day)) (split CHR '','' ''monday'') = [''monday'']"
  by (simp add: lower_def lower_char_def strip_def is_space_def)

lemma check_schedule_other_time:
  "current_time \<noteq> j_start_time row \<Longrightarrow> current_time \<noteq> j_end_time row \<Longrightarrow>
   check_schedule env current_time current_day row tr = (tr, [])"
  by (simp add: check_schedule_def Let_def)

lemma check_schedule_other_day:
  "current_day \<notin> set (map (\<lambda>day. lower (strip day)) (split CHR '','' (j_days row))) \<Longrightarrow>
   check_schedule env current_time current_day row tr = (tr, [])"
  by (simp add: check_schedule_def Let_def)

lemma fire_fresh:
  "tr (tracker_key (j_schedule_id row) k current_day) \<noteq> Some current_time \<Longrightarrow> succeeds env \<Longrightarrow>
   fire env current_time current_day row k tr =
     (tr(tracker_key (j_schedule_id row) k current_day \<mapsto> current_time),
      [\<lparr> at_time = current_time, at_day = current_day, at_schedule = j_schedule_id row,
         at_device = j_device_id row, at_kind = k, at_outcome = Success \<rparr>])"
  by (simp add: fire_def Let_def succeeds_def)

subsection \<open>A day of the loop\<close>

lemma consecutive_minutes: "0 < m \<Longrightarrow> int ((m - 1) mod 60) \<noteq> int (m mod 60)"
proof
  assume m: "0 < m" and e: "int ((m - 1) mod 60) = int (m mod 60)"
  then have "(m - 1) mod 60 = m mod 60" by simp
  then have "Suc ((m - 1) mod 60) mod 60 = Suc (m mod 60) mod 60" by simp
  then have "Suc (m - 1) mod 60 = Suc m mod 60" by (simp only: mod_Suc_eq)
  then have "m mod 60 = Suc m mod 60" using m by simp
  then show False by (simp add: mod_Suc split: if_splits)
qed

lemma every_minute_split:
  assumes "m1 < m2" "m2 < 1440"
  shows "every_minute day = map (minute_of_day day) [0..<m1] @ minute_of_day day m1 #
           map (minute_of_day day) [Suc m1..<m2] @ minute_of_day day m2 # map (minute_of_day day) [Suc m2..<1440]"
proof -
  have a: "[0..<1440] = [0..<m1] @ m1 # [Suc m1..<1440]"
    using assms by (intro upt_split_at) simp_all
  have b: "[Suc m1..<1440] = [Suc m1..<m2] @ m2 # [Suc m2..<1440]"
    using assms by (intro upt_split_at) simp_all
  show ?thesis
    unfolding every_minute_def by (subst a, subst b) (simp only: map_append list.map)
qed

lemma run_day:
  fixes day m1 m2 :: nat
  assumes rows: "enabled_schedules db = [row]"
    and today: "lower (strftime_A (minute_of_day day 0)) \<in> set (map (\<lambda>day. lower (strip day)) (split CHR '','' (j_days row)))"
    and start: "j_start_time row = strftime_HM (minute_of_day day m1)"
    and stop: "j_end_time row = strftime_HM (minute_of_day day m2)"
    and m12: "m1 < m2" and m2: "m2 < 1440"
    and ok: "\<And>now. succeeds (cloud now (j_schedule_id row))"
  shows "snd (run_ticks cloud db (every_minute day) initial_state) =
     [\<lparr> at_time = j_start_time row, at_day = lower (strftime_A (minute_of_day day 0)),
         at_schedule = j_schedule_id row, at_device = j_device_id row, at_kind = ON, at_outcome = Success \<rparr>,
      \<lparr> at_time = j_end_time row, at_day = lower (strftime_A (minute_of_day day 0)),
         at_schedule = j_schedule_id row, at_device = j_device_id row, at_kind = OFF, at_outcome = Success \<rparr>]"
proof -
  define f where "f = minute_of_day day"
  define cd where "cd = lower (strftime_A (minute_of_day day 0))"
  define kon where "kon = tracker_key (j_schedule_id row) ON cd"
  define koff where "koff = tracker_key (j_schedule_id row) OFF cd"
  have day_f: "lower (strftime_A (f m)) = cd" for m
    by (simp add: f_def cd_def strftime_A_def weekday_def minute_of_day_def)
  have min_f: "minute (f m) = m mod 60" for m
    by (simp add: f_def minute_of_day_def)
  have hm: "(strftime_HM (f m) = strftime_HM (f n)) = (m = n)" if "m < 1440" "n < 1440" for m n
    unfolding f_def using that by (rule strftime_HM_minute_of_day)
  have m1: "m1 < 1440" using m12 m2 by simp
  have chk: "check_and_execute_schedules c (f m) db tr =
             check_schedule (c (j_schedule_id row)) (strftime_HM (f m)) cd row tr" for c m tr
    by (simp add: check_single_row[OF rows] day_f)
  have quiet: "check_and_execute_schedules c (f m) db tr = (tr, [])"
    if "m < 1440" "m \<noteq> m1" "m \<noteq> m2" for c m tr
    unfolding chk using that m1 m2
    by (intro check_schedule_other_time) (simp_all add: start stop hm f_def[symmetric])
  have fire_on: "check_and_execute_schedules (cloud (f m1)) (f m1) db tr =
      (tr(kon \<mapsto> j_start_time row),
       [\<lparr> at_time = j_start_time row, at_day = cd, at_schedule = j_schedule_id row,
          at_device = j_device_id row, at_kind = ON, at_outcome = Success \<rparr>])"
    if "tr kon \<noteq> Some (j_start_time row)" for tr
    unfolding chk using that today ok
    by (simp add: check_schedule_def Let_def start f_def[symmetric] fire_fresh kon_def cd_def)
  have fire_off: "check_and_execute_schedules (cloud (f m2)) (f m2) db tr =
      (tr(koff \<mapsto> j_end_time row),
       [\<lparr> at_time = j_end_time row, at_day = cd, at_schedule = j_schedule_id row,
          at_device = j_device_id row, at_kind = OFF, at_outcome = Success \<rparr>])"
    if "tr koff \<noteq> Some (j_end_time row)" for tr
    unfolding chk using that today ok m12 m1 m2
    by (simp add: check_schedule_def Let_def start stop f_def[symmetric] fire_fresh koff_def cd_def hm)
  have ne: "j_start_time row \<noteq> j_end_time row"
    using m12 m1 m2 by (simp add: start stop f_def[symmetric] hm)
  \<comment> \<open>the five stretches of the day\<close>
  define s1 where "s1 = fst (run_ticks cloud db (map f [0..<m1]) initial_state)"
  define s2 where "s2 = fst (schedule_tick (cloud (f m1)) (f m1) db s1)"
  define s3 where "s3 = fst (run_ticks cloud db (map f [Suc m1..<m2]) s2)"
  define s4 where "s4 = fst (schedule_tick (cloud (f m2)) (f m2) db s3)"
  have p1: "check_and_execute_schedules (cloud t) t db tr = (tr, [])" if "t \<in> set (map f [0..<m1])" for t tr
    using that quiet m1 m12 by auto
  have q1: "snd (run_ticks cloud db (map f [0..<m1]) initial_state) = []
       \<and> schedule_execution_tracker s1 = Map.empty
       \<and> last_schedule_check_minute s1 = (if m1 = 0 then - 1 else int ((m1 - 1) mod 60))"
    using run_ticks_quiet[of "map f [0..<m1]" cloud db initial_state, OF p1]
    by (simp add: s1_def initial_state_def last_map min_f)
  have l1: "int (minute (f m1)) \<noteq> last_schedule_check_minute s1"
    using q1 consecutive_minutes[of m1] by (auto simp: min_f)
  have t2: "snd (schedule_tick (cloud (f m1)) (f m1) db s1) =
       [\<lparr> at_time = j_start_time row, at_day = cd, at_schedule = j_schedule_id row,
          at_device = j_device_id row, at_kind = ON, at_outcome = Success \<rparr>]
       \<and> schedule_execution_tracker s2 = [kon \<mapsto> j_start_time row]
       \<and> last_schedule_check_minute s2 = int (m1 mod 60)"
    using l1 q1 by (simp add: s2_def schedule_tick_def Let_def fire_on min_f)
  have p3: "check_and_execute_schedules (cloud t) t db tr = (tr, [])" if "t \<in> set (map f [Suc m1..<m2])" for t tr
    using that quiet m2 m12 by auto
  have "last_schedule_check_minute s3 = (if Suc m1 = m2 then int (m1 mod 60) else int ((m2 - 1) mod 60))"
    using run_ticks_quiet[of "map f [Suc m1..<m2]" cloud db s2, OF p3] t2 m12
    by (auto simp add: s3_def last_map min_f)
  then have "last_schedule_check_minute s3 = int ((m2 - 1) mod 60)"
    by auto
  then have q3: "snd (run_ticks cloud db (map f [Suc m1..<m2]) s2) = []
       \<and> schedule_execution_tracker s3 = [kon \<mapsto> j_start_time row]
       \<and> last_schedule_check_minute s3 = int ((m2 - 1) mod 60)"
    using run_ticks_quiet[of "map f [Suc m1..<m2]" cloud db s2, OF p3] t2
    by (simp add: s3_def)
  have l3: "int (minute (f m2)) \<noteq> last_schedule_check_minute s3"
    using q3 consecutive_minutes[of m2] m12 by (auto simp: min_f)
  have t4: "snd (schedule_tick (cloud (f m2)) (f m2) db s3) =
       [\<lparr> at_time = j_end_time row, at_day = cd, at_schedule = j_schedule_id row,
          at_device = j_device_id row, at_kind = OFF, at_outcome = Success \<rparr>]"
    using l3 q3 ne by (simp add: s4_def schedule_tick_def Let_def fire_off min_f)
  have p5: "check_and_execute_schedules (cloud t) t db tr = (tr, [])" if "t \<in> set (map f [Suc m2..<1440])" for t tr
    using that quiet m12 by auto
  have q5: "snd (run_ticks cloud db (map f [Suc m2..<1440]) s4) = []"
    using run_ticks_quiet[of "map f [Suc m2..<1440]" cloud db s4, OF p5] by simp
  have split_day: "every_minute day = map f [0..<m1] @ f m1 # map f [Suc m1..<m2] @ f m2 # map f [Suc m2..<1440]"
    unfolding f_def using m12 m2 by (rule every_minute_split)
  show ?thesis
    unfolding split_day cd_def[symmetric]
    by (simp only: run_ticks_append_snd run_ticks_append_fst run_ticks_Cons_snd run_ticks_Cons_fst
        s1_def[symmetric] s2_def[symmetric] s3_def[symmetric] s4_def[symmetric] q1 t2 q3 t4 q5 append_Nil append_Nil2 append_Cons)
qed

lemma check_schedule_again:
  "succeeds env \<Longrightarrow>
   snd (check_schedule env2 current_time current_day row (fst (check_schedule env current_time current_day row tr))) = []"
  by (simp add: check_schedule_def fire_def Let_def succeeds_def)

lemma strftime_A_day:
  assumes "strftime_A t = day_names ! k" "k < 7"
  shows "weekday t = k"
proof -
  have "distinct day_names" by (simp add: day_names_def)
  moreover have "weekday t < length day_names" by (simp add: day_names_def weekday_def)
  moreover have "k < length day_names" using assms by (simp add: day_names_def)
  ultimately show ?thesis
    using assms(1) unfolding strftime_A_def by (simp add: nth_eq_iff_index_eq)
qed

text \<open>
  Claim C1. One enabled schedule, start 08:00, end 18:00, days "monday", its device registered,
  and a cloud where every command succeeds. The loop of a fresh process, reading the clock once
  in every minute of a Monday, attempts exactly two commands: ON at 08:00 and OFF at 18:00, both
  successful. Over a Tuesday it attempts none, from any state. And evaluating any minute a second
  time, right after an evaluation of it, attempts no command, whatever the cloud does then.
\<close>

theorem monday_schedule_fires_once:
  assumes sched: "filter (\<lambda>s. sch_enabled s = 1) (schedules db) = [s]"
    and dev: "filter (\<lambda>d. dev_device_id d = sch_device_id s) (devices db) = [d]"
    and start: "sch_start_time s = ''08:00''"
    and stop: "sch_end_time s = ''18:00''"
    and days: "sch_days s = ''monday''"
    and mon: "strftime_A (minute_of_day monday 0) = ''Monday''"
    and tue: "strftime_A (minute_of_day tuesday 0) = ''Tuesday''"
    and ok: "\<And>now. succeeds (cloud now (sch_id s))"
  shows "snd (run_ticks cloud db (every_minute monday) initial_state) =
           [\<lparr> at_time = ''08:00'', at_day = ''monday'', at_schedule = sch_id s,
               at_device = sch_device_id s, at_kind = ON, at_outcome = Success \<rparr>,
            \<lparr> at_time = ''18:00'', at_day = ''monday'', at_schedule = sch_id s,
               at_device = sch_device_id s, at_kind = OFF, at_outcome = Success \<rparr>]
       \<and> snd (run_ticks cloud db (every_minute tuesday) st) = []
       \<and> snd (check_and_execute_schedules cloud2 now db
                (fst (check_and_execute_schedules (cloud now) now db tr))) = []"
proof -
  define row where "row = join_row s d"
  have rows: "enabled_schedules db = [row]"
    unfolding row_def using sched dev by (rule enabled_schedules_single)
  have row: "j_schedule_id row = sch_id s" "j_device_id row = sch_device_id s"
    "j_start_time row = ''08:00''" "j_end_time row = ''18:00''" "j_days row = ''monday''"
    by (simp_all add: row_def join_row_def start stop days)
  have wm: "weekday (minute_of_day monday 0) = 0"
    using mon by (intro strftime_A_day) (simp_all add: day_names_def)
  have wt: "weekday (minute_of_day tuesday 0) = 1"
    using tue by (intro strftime_A_day) (simp_all add: day_names_def)
  have dm: "lower (strftime_A (minute_of_day monday 0)) = ''monday''"
    by (simp add: lower_strftime_A wm)
  have dt: "lower (strftime_A (minute_of_day tuesday m)) = ''tuesday''" for m
  proof -
    have "weekday (minute_of_day tuesday m) = 1"
      using wt by (simp add: weekday_def minute_of_day_def)
    then show ?thesis by (simp add: lower_strftime_A)
  qed
  have h8: "''08:00'' = strftime_HM (minute_of_day monday 480)"
    by (simp add: strftime_HM_def minute_of_day_def two_digits_def digit_char_def)
  have h18: "''18:00'' = strftime_HM (minute_of_day monday 1080)"
    by (simp add: strftime_HM_def minute_of_day_def two_digits_def digit_char_def)
  have a: "snd (run_ticks cloud db (every_minute monday) initial_state) =
           [\<lparr> at_time = ''08:00'', at_day = ''monday'', at_schedule = sch_id s,
               at_device = sch_device_id s, at_kind = ON, at_outcome = Success \<rparr>,
            \<lparr> at_time = ''18:00'', at_day = ''monday'', at_schedule = sch_id s,
               at_device = sch_device_id s, at_kind = OFF, at_outcome = Success \<rparr>]"
  proof -
    have today: "lower (strftime_A (minute_of_day monday 0)) \<in>
        set (map (\<lambda>day. lower (strip day)) (split CHR '','' (j_days row)))"
      unfolding row dm schedule_days_monday by simp
    have ok': "succeeds (cloud now (j_schedule_id row))" for now
      using ok by (simp add: row)
    show ?thesis
      using run_day[of db row monday 480 1080 cloud, OF rows today _ _ _ _ ok']
      by (simp add: row dm h8[symmetric] h18[symmetric])
  qed
  have quiet: "check_and_execute_schedules (cloud t) t db tr = (tr, [])"
    if "t \<in> set (every_minute tuesday)" for t tr
  proof -
    from that obtain m where t: "t = minute_of_day tuesday m"
      by (auto simp: every_minute_def)
    have "''tuesday'' \<notin> set (map (\<lambda>day. lower (strip day)) (split CHR '','' (j_days row)))"
      unfolding row schedule_days_monday by simp
    then show ?thesis
      unfolding check_single_row[OF rows] t dt by (rule check_schedule_other_day)
  qed
  have b: "snd (run_ticks cloud db (every_minute tuesday) st) = []"
    using run_ticks_quiet[of "every_minute tuesday" cloud db st, OF quiet] by simp
  have c: "snd (check_and_execute_schedules cloud2 now db
                (fst (check_and_execute_schedules (cloud now) now db tr))) = []"
    using ok[of now] by (simp add: check_single_row[OF rows] row check_schedule_again)
  from a b c show ?thesis by simp
qed


lemma good_env_succeeds: "succeeds good_env"
  by (simp add: succeeds_def send_command_def good_env_def get_token_def get_token_try_def sign_def)

lemma demo_enabled:
  "filter (\<lambda>s. sch_enabled s = 1) (schedules (demo_db start stop)) = [demo_schedule start stop]"
  by (simp add: demo_db_def demo_schedule_def)

lemma demo_device_of:
  "filter (\<lambda>d. dev_device_id d = sch_device_id (demo_schedule start stop)) (devices (demo_db start stop)) = [demo_device]"
  by (simp add: demo_db_def demo_schedule_def demo_device_def)

lemma demo_monday: "strftime_A (minute_of_day 739922 m) = ''Monday''"
  by (simp add: strftime_A_def weekday_def minute_of_day_def day_names_def)

lemma demo_tuesday: "strftime_A (minute_of_day 739923 m) = ''Tuesday''"
  by (simp add: strftime_A_def weekday_def minute_of_day_def day_names_def)

theorem monday_schedule_fires_once_witness:
  "snd (run_ticks (\<lambda>now i. good_env) (demo_db ''08:00'' ''18:00'') (every_minute 739922) initial_state) =
           [\<lparr> at_time = ''08:00'', at_day = ''monday'', at_schedule = 1,
               at_device = ''plug1'', at_kind = ON, at_outcome = Success \<rparr>,
            \<lparr> at_time = ''18:00'', at_day = ''monday'', at_schedule = 1,
               at_device = ''plug1'', at_kind = OFF, at_outcome = Success \<rparr>]
       \<and> snd (run_ticks (\<lambda>now i. good_env) (demo_db ''08:00'' ''18:00'') (every_minute 739923) initial_state) = []
       \<and> snd (check_and_execute_schedules (\<lambda>i. good_env) (minute_of_day 739922 480) (demo_db ''08:00'' ''18:00'')
                (fst (check_and_execute_schedules (\<lambda>i. good_env) (minute_of_day 739922 480)
                       (demo_db ''08:00'' ''18:00'') Map.empty))) = []"
proof -
  have start: "sch_start_time (demo_schedule ''08:00'' ''18:00'') = ''08:00''"
    and stop: "sch_end_time (demo_schedule ''08:00'' ''18:00'') = ''18:00''"
    and days: "sch_days (demo_schedule ''08:00'' ''18:00'') = ''monday''"
    by (simp_all add: demo_schedule_def)
  have ok: "succeeds ((\<lambda>now i. good_env) now (sch_id (demo_schedule ''08:00'' ''18:00'')))" for now :: datetime
    by (simp add: good_env_succeeds)
  show ?thesis
    using monday_schedule_fires_once[OF demo_enabled demo_device_of start stop days demo_monday demo_tuesday ok,
        of initial_state "\<lambda>i. good_env" "minute_of_day 739922 480" Map.empty]
    by (simp add: demo_schedule_def)
qed

subsection \<open>The tracker and later days\<close>

text \<open>
  Claim C2, evaluated at a failing input. The schedule fires ON at 08:00 on Monday 2026-11-02 and the
  command succeeds, which stores \<open>''08:00''\<close> under the key \<open>''1_ON_monday''\<close>. The key
  names the weekday and the value the time of day only, so the evaluation at 08:00 on the following
  Monday, 2026-11-09, finds the same value and attempts no command.
\<close>

theorem tracker_blocks_following_monday:
  "map at_kind (snd (check_and_execute_schedules (\<lambda>i. good_env) (minute_of_day 739922 480)
        (demo_db ''08:00'' ''18:00'') Map.empty)) = [ON]
   \<and> snd (check_and_execute_schedules (\<lambda>i. good_env) (minute_of_day 739929 480)
        (demo_db ''08:00'' ''18:00'')
        (fst (check_and_execute_schedules (\<lambda>i. good_env) (minute_of_day 739922 480)
               (demo_db ''08:00'' ''18:00'') Map.empty))) = []"
proof -
  have rows: "enabled_schedules (demo_db ''08:00'' ''18:00'') = [join_row (demo_schedule ''08:00'' ''18:00'') demo_device]"
    using demo_enabled demo_device_of by (rule enabled_schedules_single)
  have t1: "strftime_HM (minute_of_day 739922 480) = ''08:00''"
    and t2: "strftime_HM (minute_of_day 739929 480) = ''08:00''"
    by (simp_all add: strftime_HM_def minute_of_day_def two_digits_def digit_char_def)
  have d1: "lower (strftime_A (minute_of_day 739922 480)) = ''monday''"
    and d2: "lower (strftime_A (minute_of_day 739929 480)) = ''monday''"
    by (simp_all add: lower_strftime_A weekday_def minute_of_day_def)
  show ?thesis
    unfolding check_single_row[OF rows] t1 t2 d1 d2
    using good_env_succeeds
    by (simp add: check_schedule_def Let_def join_row_def demo_schedule_def demo_device_def
        lower_def lower_char_def strip_def is_space_def fire_def succeeds_def)
qed


subsection \<open>Start and end as triggers\<close>

text \<open>
  Claim C7, against the claim as stated: with start and end both 08:00, the evaluation at 08:00
  attempts the ON command only. The end time is tested in the \<open>elif\<close> of the start time.
\<close>

theorem equal_start_end_only_on:
  "map at_kind (snd (check_and_execute_schedules (\<lambda>i. good_env) (minute_of_day 739922 480)
        (demo_db ''08:00'' ''08:00'') Map.empty)) = [ON]
   \<and> OFF \<notin> set (map at_kind (snd (check_and_execute_schedules (\<lambda>i. good_env) (minute_of_day 739922 480)
        (demo_db ''08:00'' ''08:00'') Map.empty)))"
proof -
  have rows: "enabled_schedules (demo_db ''08:00'' ''08:00'') = [join_row (demo_schedule ''08:00'' ''08:00'') demo_device]"
    using demo_enabled demo_device_of by (rule enabled_schedules_single)
  have t1: "strftime_HM (minute_of_day 739922 480) = ''08:00''"
    by (simp_all add: strftime_HM_def minute_of_day_def two_digits_def digit_char_def)
  have d1: "lower (strftime_A (minute_of_day 739922 480)) = ''monday''"
    by (simp_all add: lower_strftime_A weekday_def minute_of_day_def)
  show ?thesis
    unfolding check_single_row[OF rows] t1 d1
    using good_env_succeeds
    by (simp add: check_schedule_def Let_def join_row_def demo_schedule_def demo_device_def
        lower_def lower_char_def strip_def is_space_def fire_def succeeds_def)
qed

text \<open>
  Claim C7, amended. For the one enabled schedule, on one of its days, with the tracker holding
  no mark for this minute and a cloud where the command succeeds: at the start time the evaluation
  attempts exactly the ON command (also when the end time is the same); at an end time that differs
  from the start time it attempts exactly the OFF command, whichever of the two times is the earlier;
  at any other time it attempts nothing.
\<close>

theorem start_and_end_triggers:
  assumes sched: "filter (\<lambda>s. sch_enabled s = 1) (schedules db) = [s]"
    and dev: "filter (\<lambda>d. dev_device_id d = sch_device_id s) (devices db) = [d]"
    and today: "lower (strftime_A now) \<in> set (map (\<lambda>day. lower (strip day)) (split CHR '','' (sch_days s)))"
    and fresh: "\<And>k. tr (tracker_key (sch_id s) k (lower (strftime_A now))) \<noteq> Some (strftime_HM now)"
    and ok: "succeeds (cloud (sch_id s))"
  shows "(strftime_HM now = sch_start_time s \<longrightarrow>
           map at_kind (snd (check_and_execute_schedules cloud now db tr)) = [ON])
       \<and> (strftime_HM now = sch_end_time s \<and> sch_end_time s \<noteq> sch_start_time s \<longrightarrow>
           map at_kind (snd (check_and_execute_schedules cloud now db tr)) = [OFF])
       \<and> (strftime_HM now \<noteq> sch_start_time s \<and> strftime_HM now \<noteq> sch_end_time s \<longrightarrow>
           snd (check_and_execute_schedules cloud now db tr) = [])"
proof -
  define row where "row = join_row s d"
  have rows: "enabled_schedules db = [row]"
    unfolding row_def using sched dev by (rule enabled_schedules_single)
  have row: "j_schedule_id row = sch_id s" "j_start_time row = sch_start_time s"
    "j_end_time row = sch_end_time s" "j_days row = sch_days s"
    by (simp_all add: row_def join_row_def)
  show ?thesis
    unfolding check_single_row[OF rows]
    using today fresh[of ON] fresh[of OFF] ok
    by (auto simp add: check_schedule_def Let_def row fire_def succeeds_def)
qed

theorem start_and_end_triggers_witness:
  "map at_kind (snd (check_and_execute_schedules (\<lambda>i. good_env) (minute_of_day 739922 1320)
        (demo_db ''22:00'' ''06:00'') Map.empty)) = [ON]
   \<and> map at_kind (snd (check_and_execute_schedules (\<lambda>i. good_env) (minute_of_day 739922 360)
        (demo_db ''22:00'' ''06:00'') Map.empty)) = [OFF]
   \<and> snd (check_and_execute_schedules (\<lambda>i. good_env) (minute_of_day 739922 720)
        (demo_db ''22:00'' ''06:00'') Map.empty) = []"
proof -
  have today: "lower (strftime_A (minute_of_day 739922 m)) \<in>
      set (map (\<lambda>day. lower (strip day)) (split CHR '','' (sch_days (demo_schedule ''22:00'' ''06:00''))))" for m
    by (simp add: demo_monday demo_schedule_def lower_def lower_char_def strip_def is_space_def)
  have fresh: "Map.empty (tracker_key (sch_id (demo_schedule ''22:00'' ''06:00'')) k
      (lower (strftime_A (minute_of_day 739922 m)))) \<noteq> Some (strftime_HM (minute_of_day 739922 m))" for k m
    by simp
  have ok: "succeeds ((\<lambda>i. good_env) (sch_id (demo_schedule ''22:00'' ''06:00'')))"
    by (simp add: good_env_succeeds)
  have t: "strftime_HM (minute_of_day 739922 1320) = ''22:00''"
    "strftime_HM (minute_of_day 739922 360) = ''06:00''"
    "strftime_HM (minute_of_day 739922 720) = ''12:00''"
    by (simp_all add: strftime_HM_def minute_of_day_def two_digits_def digit_char_def)
  show ?thesis
    using start_and_end_triggers[OF demo_enabled demo_device_of today fresh ok, of 1320]
      start_and_end_triggers[OF demo_enabled demo_device_of today fresh ok, of 360]
      start_and_end_triggers[OF demo_enabled demo_device_of today fresh ok, of 720]
    by (simp add: t demo_schedule_def)
qed


subsection \<open>Transport failures\<close>

lemma check_schedule_failed:
  "send_command env \<noteq> Success \<Longrightarrow> fst (check_schedule env current_time current_day row tr) = tr"
  by (simp add: check_schedule_def fire_def Let_def)

lemma check_rows_Cons_fst:
  "fst (check_rows cloud current_time current_day (row # rows) tr) =
     fst (check_rows cloud current_time current_day rows
            (fst (check_schedule (cloud (j_schedule_id row)) current_time current_day row tr)))"
  by (simp split: prod.splits)

lemma check_rows_failed:
  "(\<And>i. send_command (cloud i) \<noteq> Success) \<Longrightarrow> fst (check_rows cloud current_time current_day rows tr) = tr"
proof (induction rows arbitrary: tr)
  case Nil
  show ?case by simp
next
  case (Cons row rows)
  have "fst (check_schedule (cloud (j_schedule_id row)) current_time current_day row tr) = tr"
    using Cons.prems by (rule check_schedule_failed)
  then show ?case
    unfolding check_rows_Cons_fst using Cons.IH[OF Cons.prems, of tr] by simp
qed

lemma send_command_failures:
  "\<not> truthy (get_token (token_reply env)) \<or> post_reply env = Raises
     \<or> (\<exists>code body. post_reply env = Response code body \<and> code \<noteq> 200)
   \<Longrightarrow> send_command env \<noteq> Success"
  by (auto simp add: send_command_def Let_def split: sum.splits http_reply.splits)

text \<open>
  Claim C8. If no command of an evaluation succeeds, the evaluation leaves the tracker as it was.
  For one schedule: when the loop body attempted a command and it failed, the tracker is unchanged,
  it holds no mark of this minute for that schedule, transition and day, and the body run again on
  it attempts the same transition again, whatever the cloud answers then. A token that cannot be
  obtained, a request that raises and a status other than 200 are all failures.
\<close>

theorem transport_failure_leaves_tracker:
  "((\<forall>i. send_command (cloud i) \<noteq> Success) \<longrightarrow>
       fst (check_and_execute_schedules cloud now db tr) = tr)
   \<and> (check_schedule env current_time current_day row tr = (tr', [a]) \<and> at_outcome a \<noteq> Success \<longrightarrow>
       tr' = tr
       \<and> tr (tracker_key (j_schedule_id row) (at_kind a) current_day) \<noteq> Some current_time
       \<and> (\<forall>env2. map at_kind (snd (check_schedule env2 current_time current_day row tr')) = [at_kind a]))
   \<and> (\<not> truthy (get_token (token_reply env)) \<or> post_reply env = Raises
        \<or> (\<exists>code body. post_reply env = Response code body \<and> code \<noteq> 200) \<longrightarrow>
       send_command env \<noteq> Success)"
proof (intro conjI impI)
  assume "\<forall>i. send_command (cloud i) \<noteq> Success"
  then show "fst (check_and_execute_schedules cloud now db tr) = tr"
    by (simp add: check_and_execute_schedules_def check_rows_failed)
next
  assume h: "check_schedule env current_time current_day row tr = (tr', [a]) \<and> at_outcome a \<noteq> Success"
  then show "tr' = tr"
    by (auto simp add: check_schedule_def fire_def Let_def split: if_splits)
  from h show "tr (tracker_key (j_schedule_id row) (at_kind a) current_day) \<noteq> Some current_time"
    by (auto simp add: check_schedule_def fire_def Let_def split: if_splits)
  from h show "\<forall>env2. map at_kind (snd (check_schedule env2 current_time current_day row tr')) = [at_kind a]"
    by (auto simp add: check_schedule_def fire_def Let_def split: if_splits)
next
  assume "\<not> truthy (get_token (token_reply env)) \<or> post_reply env = Raises
        \<or> (\<exists>code body. post_reply env = Response code body \<and> code \<noteq> 200)"
  then show "send_command env \<noteq> Success" by (rule send_command_failures)
qed


lemma failing_envs:
  "send_command no_token_env = No_token"
  "send_command rejected_env = Failed 500"
  "send_command unreachable_env = Error ConnectionError"
  by (simp_all add: send_command_def no_token_env_def rejected_env_def unreachable_env_def good_env_def
      get_token_def get_token_try_def sign_def)

theorem transport_failure_leaves_tracker_witness:
  "fst (check_and_execute_schedules (\<lambda>i. no_token_env) (minute_of_day 739922 480)
         (demo_db ''08:00'' ''18:00'') Map.empty) = Map.empty
   \<and> Map.empty (tracker_key 1 ON ''monday'') \<noteq> Some ''08:00''
   \<and> map at_kind (snd (check_schedule good_env ''08:00'' ''monday''
         (join_row (demo_schedule ''08:00'' ''18:00'') demo_device) Map.empty)) = [ON]
   \<and> send_command no_token_env \<noteq> Success
   \<and> send_command rejected_env \<noteq> Success
   \<and> send_command unreachable_env \<noteq> Success"
proof -
  let ?row = "join_row (demo_schedule ''08:00'' ''18:00'') demo_device"
  let ?a = "\<lparr> at_time = ''08:00'', at_day = ''monday'', at_schedule = 1, at_device = ''plug1'',
              at_kind = ON, at_outcome = Failed 500 \<rparr>"
  have all: "\<forall>i. send_command ((\<lambda>i. no_token_env) i) \<noteq> Success"
    by (simp add: failing_envs)
  have one: "check_schedule rejected_env ''08:00'' ''monday'' ?row Map.empty = (Map.empty, [?a])
       \<and> at_outcome ?a \<noteq> Success"
    by (simp add: check_schedule_def Let_def join_row_def demo_schedule_def demo_device_def
        lower_def lower_char_def strip_def is_space_def fire_def failing_envs)
  have m1: "\<not> truthy (get_token (token_reply no_token_env))"
    by (simp add: no_token_env_def get_token_def get_token_try_def)
  have m2: "\<exists>code body. post_reply rejected_env = Response code body \<and> code \<noteq> 200"
    by (simp add: rejected_env_def)
  have m3: "post_reply unreachable_env = Raises"
    by (simp add: unreachable_env_def)
  show ?thesis
    using all one m1 m2 m3
      transport_failure_leaves_tracker[where cloud = "\<lambda>i. no_token_env" and env = rejected_env
        and now = "minute_of_day 739922 480" and db = "demo_db ''08:00'' ''18:00''" and tr = Map.empty
        and current_time = "''08:00''" and current_day = "''monday''" and row = ?row
        and tr' = Map.empty and a = ?a]
      transport_failure_leaves_tracker[where env = no_token_env]
      transport_failure_leaves_tracker[where env = unreachable_env]
    by (simp add: join_row_def demo_schedule_def)
qed

section \<open>Properties of the rounding\<close>

lemma bitlen_powi:
  fixes p :: int
  assumes "0 < p"
  shows "(2::rat) powi (bitlen p - 1) \<le> of_int p" "of_int p < (2::rat) powi bitlen p"
proof -
  have b: "1 \<le> bitlen p" using assms by (simp add: bitlen_alt_def)
  have "(2::int) ^ nat (bitlen p - 1) \<le> p" "p < 2 ^ nat (bitlen p)"
    using bitlen_bounds[OF assms] by simp_all
  then have "(of_int ((2::int) ^ nat (bitlen p - 1)) :: rat) \<le> of_int p" "(of_int p :: rat) < of_int (2 ^ nat (bitlen p))"
    by (simp_all only: of_int_le_iff of_int_less_iff)
  then show "(2::rat) powi (bitlen p - 1) \<le> of_int p" "of_int p < (2::rat) powi bitlen p"
    using b by (simp_all add: power_int_def)
qed

lemma ilog2_bounds:
  assumes "0 < a"
  shows "2 powi ilog2 a \<le> a" and "a < 2 powi (ilog2 a + 1)"
proof -
  obtain p q where pq: "quotient_of a = (p, q)" by (cases "quotient_of a")
  have q: "0 < q" using pq by (rule quotient_of_denom_pos)
  have a: "a = of_int p / of_int q" using pq by (rule quotient_of_div)
  have p: "0 < p" using assms q a by (simp add: zero_less_divide_iff)
  define k where "k = bitlen p - bitlen q"
  have il: "ilog2 a = (if 2 powi k \<le> a then k else k - 1)"
    by (simp add: ilog2_def pq k_def)
  have up: "a < 2 powi (k + 1)"
  proof -
    have "of_int p < (2::rat) powi bitlen p" using p by (rule bitlen_powi)
    moreover have "(2::rat) powi (bitlen q - 1) \<le> of_int q" using q by (rule bitlen_powi)
    moreover have "(2::rat) powi bitlen p = 2 powi (k + 1) * 2 powi (bitlen q - 1)"
      by (simp add: k_def flip: power_int_add)
    ultimately have "of_int p < 2 powi (k + 1) * (of_int q :: rat)"
      by (smt (verit) mult_left_mono zero_le_power_int zero_le_numeral order_less_le_trans)
    then show ?thesis using q by (simp add: a pos_divide_less_eq)
  qed
  have lo: "2 powi (k - 1) < a"
  proof -
    have "(2::rat) powi (bitlen p - 1) \<le> of_int p" using p by (rule bitlen_powi)
    moreover have "of_int q < (2::rat) powi bitlen q" using q by (rule bitlen_powi)
    moreover have "(2::rat) powi (bitlen p - 1) = 2 powi (k - 1) * 2 powi (bitlen q)"
      by (simp add: k_def flip: power_int_add)
    moreover have "(0::rat) < 2 powi (k - 1)" by simp
    ultimately have "2 powi (k - 1) * (of_int q :: rat) < of_int p"
      by (smt (verit) mult_strict_left_mono order_less_le_trans)
    then show ?thesis using q by (simp add: a pos_less_divide_eq)
  qed
  show "2 powi ilog2 a \<le> a" using lo by (simp add: il)
  show "a < 2 powi (ilog2 a + 1)" using up by (simp add: il)
qed


lemma ilog2_mono:
  assumes "0 < a" "a \<le> b"
  shows "ilog2 a \<le> ilog2 b"
proof (rule ccontr)
  assume "\<not> ilog2 a \<le> ilog2 b"
  then have "ilog2 b + 1 \<le> ilog2 a" by simp
  then have "(2::rat) powi (ilog2 b + 1) \<le> 2 powi ilog2 a"
    by (intro power_int_increasing) simp_all
  also have "\<dots> \<le> a" using assms(1) by (rule ilog2_bounds)
  also have "a \<le> b" by fact
  also have "b < 2 powi (ilog2 b + 1)" using assms by (intro ilog2_bounds) simp
  finally show False by simp
qed

lemma round_half_even_of_int: "round_half_even (of_int n) = n"
  by (simp add: round_half_even_def)

lemma round_half_even_bounds: "\<lfloor>x\<rfloor> \<le> round_half_even x" "round_half_even x \<le> \<lfloor>x\<rfloor> + 1"
  by (simp_all add: round_half_even_def Let_def)

lemma round_half_even_mono:
  assumes "x \<le> y"
  shows "round_half_even x \<le> round_half_even y"
proof (cases "\<lfloor>x\<rfloor> = \<lfloor>y\<rfloor>")
  case True
  define f where "f = \<lfloor>y\<rfloor>"
  have d: "x - of_int f \<le> y - of_int f" using assms by simp
  show ?thesis
    unfolding round_half_even_def Let_def True f_def[symmetric]
    using d by (simp split: if_splits)
next
  case False
  then have "\<lfloor>x\<rfloor> < \<lfloor>y\<rfloor>" using floor_mono[OF assms] by simp
  moreover have "round_half_even x \<le> \<lfloor>x\<rfloor> + 1" by (rule round_half_even_bounds)
  moreover have "\<lfloor>y\<rfloor> \<le> round_half_even y" by (rule round_half_even_bounds)
  ultimately show ?thesis by linarith
qed

lemma round_half_even_minus: "round_half_even (- x) = - round_half_even x"
proof (cases "x = of_int \<lfloor>x\<rfloor>")
  case True
  then obtain n where n: "x = of_int n" ..
  have "round_half_even (of_int (- n)) = - n" by (rule round_half_even_of_int)
  then show ?thesis unfolding n by (simp add: round_half_even_of_int)
next
  case False
  define f where "f = \<lfloor>x\<rfloor>"
  define d where "d = x - of_int f"
  have fm: "\<lfloor>- x\<rfloor> = - f - 1"
    using False by (simp add: floor_minus ceiling_altdef f_def)
  have dm: "- x - of_int (- f - 1) = 1 - d" by (simp add: d_def)
  have e: "even (- f - 1) = odd f" by simp
  have l: "round_half_even x = (if d < 1 / 2 then f else if 1 / 2 < d then f + 1 else if even f then f else f + 1)"
    by (simp add: round_half_even_def Let_def f_def d_def)
  have r: "round_half_even (- x) =
      (if 1 - d < 1 / 2 then - f - 1 else if 1 / 2 < 1 - d then - f - 1 + 1 else if odd f then - f - 1 else - f - 1 + 1)"
    unfolding round_half_even_def Let_def fm dm e ..
  consider "d < 1 / 2" | "1 / 2 < d" | "d = 1 / 2" by linarith
  then show ?thesis
  proof cases
    case 1 then show ?thesis unfolding l r by simp
  next
    case 2 then show ?thesis unfolding l r by simp
  next
    case 3 then show ?thesis unfolding l r by simp
  qed
qed


lemma round_at_zero: "round_at 0 = 0"
  by (simp add: round_at_def round_half_even_def)

lemma round_at_minus: "round_at (- x) = - round_at x"
  by (simp add: round_at_def Let_def round_half_even_minus)

lemma round_at_nonneg:
  assumes "0 \<le> x"
  shows "0 \<le> round_at x"
proof -
  define e where "e = max (ilog2 \<bar>x\<bar> - 52) (- 1074)"
  have "0 \<le> x / 2 powi e" using assms by simp
  then have "round_half_even 0 \<le> round_half_even (x / 2 powi e)" by (rule round_half_even_mono)
  then have "0 \<le> round_half_even (x / 2 powi e)"
    using round_half_even_of_int[of 0] by simp
  then show ?thesis by (simp add: round_at_def e_def Let_def)
qed

lemma round_at_pos_mono:
  assumes x: "0 < x" and xy: "x \<le> y"
  shows "round_at x \<le> round_at y"
proof -
  define ex where "ex = max (ilog2 \<bar>x\<bar> - 52) (- 1074)"
  define ey where "ey = max (ilog2 \<bar>y\<bar> - 52) (- 1074)"
  have y: "0 < y" using x xy by simp
  have rx: "round_at x = of_int (round_half_even (x / 2 powi ex)) * 2 powi ex"
    by (simp add: round_at_def ex_def Let_def)
  have ry: "round_at y = of_int (round_half_even (y / 2 powi ey)) * 2 powi ey"
    by (simp add: round_at_def ey_def Let_def)
  have "ilog2 x \<le> ilog2 y" using x xy by (rule ilog2_mono)
  then have le: "ex \<le> ey" using x y by (simp add: ex_def ey_def)
  show ?thesis
  proof (cases "ex = ey")
    case True
    have "x / 2 powi ey \<le> y / 2 powi ey" using xy by (simp add: divide_right_mono)
    then have "round_half_even (x / 2 powi ey) \<le> round_half_even (y / 2 powi ey)"
      by (rule round_half_even_mono)
    then show ?thesis unfolding rx ry True by (simp add: mult_right_mono)
  next
    case False
    then have lt: "ex + 1 \<le> ey" using le by simp
    then have ey: "ey = ilog2 y - 52" using y by (simp add: ey_def ex_def)
    \<comment> \<open>\<open>y\<close> rounds to at least the bottom of its binade\<close>
    have "(2::rat) powi (ey + 52) \<le> y" using ilog2_bounds(1)[OF y] by (simp add: ey)
    then have "(2::rat) powi 52 * 2 powi ey \<le> y" by (simp add: power_int_add)
    then have "of_int (2 ^ 52) \<le> y / 2 powi ey" by (simp add: pos_le_divide_eq)
    then have "round_half_even (of_int (2 ^ 52)) \<le> round_half_even (y / 2 powi ey)"
      by (rule round_half_even_mono)
    then have "(2::int) ^ 52 \<le> round_half_even (y / 2 powi ey)"
      by (simp only: round_half_even_of_int)
    then have "(of_int (2 ^ 52) :: rat) \<le> of_int (round_half_even (y / 2 powi ey))"
      by (simp only: of_int_le_iff)
    then have "of_int (2 ^ 52) * 2 powi ey \<le> round_at y"
      unfolding ry by (simp add: mult_right_mono)
    then have low: "(2::rat) powi (ey + 52) \<le> round_at y" by (simp add: power_int_add)
    \<comment> \<open>\<open>x\<close> rounds to at most the top of its binade\<close>
    have "ilog2 x + 1 \<le> ex + 53" using x by (simp add: ex_def)
    then have "(2::rat) powi (ilog2 x + 1) \<le> 2 powi (ex + 53)"
      by (intro power_int_increasing) simp_all
    then have "x \<le> 2 powi (ex + 53)" using ilog2_bounds(2)[OF x] by simp
    then have "x \<le> 2 powi 53 * 2 powi ex" by (simp add: power_int_add)
    then have "x / 2 powi ex \<le> of_int (2 ^ 53)" by (simp add: pos_divide_le_eq)
    then have "round_half_even (x / 2 powi ex) \<le> round_half_even (of_int (2 ^ 53))"
      by (rule round_half_even_mono)
    then have "round_half_even (x / 2 powi ex) \<le> 2 ^ 53"
      by (simp only: round_half_even_of_int)
    then have "(of_int (round_half_even (x / 2 powi ex)) :: rat) \<le> of_int (2 ^ 53)"
      by (simp only: of_int_le_iff)
    then have "round_at x \<le> of_int (2 ^ 53) * 2 powi ex"
      unfolding rx by (simp add: mult_right_mono)
    then have "round_at x \<le> 2 powi (ex + 53)" by (simp add: power_int_add)
    also have "\<dots> \<le> 2 powi (ey + 52)"
      using lt by (intro power_int_increasing) simp_all
    also note low
    finally show ?thesis .
  qed
qed

lemma round_at_mono:
  assumes "x \<le> y"
  shows "round_at x \<le> round_at y"
proof -
  consider "0 < x" | "x \<le> 0" "0 \<le> y" | "y < 0" by linarith
  then show ?thesis
  proof cases
    case 1
    then show ?thesis using assms by (rule round_at_pos_mono)
  next
    case 2
    have "0 \<le> round_at (- x)" using 2(1) by (intro round_at_nonneg) simp
    then have "round_at x \<le> 0" by (simp add: round_at_minus)
    also have "0 \<le> round_at y" using 2(2) by (rule round_at_nonneg)
    finally show ?thesis .
  next
    case 3
    have "round_at (- y) \<le> round_at (- x)"
      using 3 assms by (intro round_at_pos_mono) simp_all
    then show ?thesis by (simp add: round_at_minus)
  qed
qed

lemma ilog2_ge_iff:
  assumes "0 < a"
  shows "(k \<le> ilog2 a) = (2 powi k \<le> a)"
proof
  assume "k \<le> ilog2 a"
  then have "(2::rat) powi k \<le> 2 powi ilog2 a" by (intro power_int_increasing) simp_all
  also have "\<dots> \<le> a" using assms by (rule ilog2_bounds)
  finally show "2 powi k \<le> a" .
next
  assume k: "2 powi k \<le> a"
  show "k \<le> ilog2 a"
  proof (rule ccontr)
    assume "\<not> k \<le> ilog2 a"
    then have "ilog2 a + 1 \<le> k" by simp
    then have "(2::rat) powi (ilog2 a + 1) \<le> 2 powi k" by (intro power_int_increasing) simp_all
    then have "a < 2 powi k" using ilog2_bounds(2)[OF assms] by simp
    then show False using k by simp
  qed
qed

lemma to_double_threshold:
  "to_double r = (if 2 ^ 1024 \<le> r then PInf else if r \<le> - (2 ^ 1024) then NInf else Finite r)"
proof (cases "r = 0")
  case True
  then show ?thesis by (simp add: to_double_def)
next
  case False
  then have "0 < \<bar>r\<bar>" by simp
  then have "(1024 \<le> ilog2 \<bar>r\<bar>) = (2 powi 1024 \<le> \<bar>r\<bar>)" by (rule ilog2_ge_iff)
  then have e: "(1024 \<le> ilog2 \<bar>r\<bar>) = (2 ^ 1024 \<le> \<bar>r\<bar>)" by simp
  show ?thesis
    unfolding to_double_def e using False by (auto simp add: abs_if)
qed

lemma fl_round_at: "fl x = to_double (round_at x)"
  by (simp add: fl_def round_at_zero to_double_def)

lemma fl_not_NaN: "fl x \<noteq> NaN"
  by (simp add: fl_round_at to_double_threshold)

lemma dle_refl: "x \<noteq> NaN \<Longrightarrow> dle x x"
  by (cases x) simp_all

lemma dle_trans: "dle x y \<Longrightarrow> dle y z \<Longrightarrow> dle x z"
  by (cases x; cases y; cases z) simp_all

lemma dle_total: "x \<noteq> NaN \<Longrightarrow> y \<noteq> NaN \<Longrightarrow> \<not> dle x y \<Longrightarrow> dle y x"
  by (cases x; cases y) simp_all

lemma dle_not_NaN: "dle x y \<Longrightarrow> x \<noteq> NaN \<and> y \<noteq> NaN"
  by (cases x; cases y) simp_all

lemma dle_PInf: "x \<noteq> NaN \<Longrightarrow> dle x PInf"
  by (cases x) simp_all

lemma dle_NInf: "x \<noteq> NaN \<Longrightarrow> dle NInf x"
  by (cases x) simp_all

lemma to_double_mono: "a \<le> b \<Longrightarrow> dle (to_double a) (to_double b)"
  by (simp add: to_double_threshold)

lemma fl_mono: "x \<le> y \<Longrightarrow> dle (fl x) (fl y)"
  unfolding fl_round_at by (intro to_double_mono round_at_mono)

lemma fmul_mono:
  assumes c: "0 < c" and xy: "dle x y"
  shows "dle (fmul x (Finite c)) (fmul y (Finite c))"
proof (cases x; cases y)
  fix a b assume "x = Finite a" "y = Finite b"
  then show ?thesis using xy c by (simp add: fl_mono mult_right_mono)
qed (use xy c in \<open>simp_all add: inf_times_def dle_PInf dle_NInf fl_not_NaN\<close>)

lemma fadd_mono:
  assumes xy: "dle x y"
  shows "dle (fadd (Finite b) x) (fadd (Finite b) y)"
proof (cases x; cases y)
  fix a c assume "x = Finite a" "y = Finite c"
  then show ?thesis using xy by (simp add: fl_mono)
qed (use xy in \<open>simp_all add: dle_PInf dle_NInf fl_not_NaN\<close>)

lemma fsub_mono:
  assumes xy: "dle x y"
  shows "dle (fsub x (Finite b)) (fsub y (Finite b))"
proof (cases x; cases y)
  fix a c assume "x = Finite a" "y = Finite c"
  then show ?thesis using xy by (simp add: fsub_def fl_mono)
qed (use xy in \<open>simp_all add: fsub_def dle_PInf dle_NInf fl_not_NaN\<close>)

section \<open>Properties of the tariff\<close>

text \<open>The thresholds, the rates and the sums of the full tiers, as the doubles they are.\<close>

lemma thresholds:
  "float_int 50 = Finite 50" "float_int 75 = Finite 75" "float_int 200 = Finite 200"
  "float_int 300 = Finite 300" "float_int 400 = Finite 400"
  by code_simp+

lemma rates:
  "float_lit (375 / 100) = Finite (15 / 4)"
  "float_lit (419 / 100) = Finite (4717520609670595 / 1125899906842624)"
  "float_lit (572 / 100) = Finite (6440147467139809 / 1125899906842624)"
  "float_lit (600 / 100) = Finite 6"
  "float_lit (634 / 100) = Finite (1784551352345559 / 281474976710656)"
  "float_lit (994 / 100) = Finite (5595722537007841 / 562949953421312)"
  by code_simp+

lemma tier_bases:
  "fmul (float_int 50) (float_lit (375 / 100)) = Finite (375 / 2)"
  "fadd (Finite (375 / 2)) (fmul (float_int 25) (float_lit (419 / 100))) = Finite (1169 / 4)"
  "fadd (Finite (1169 / 4)) (fmul (float_int 125) (float_lit (572 / 100))) = Finite (4029 / 4)"
  "fadd (Finite (4029 / 4)) (fmul (float_int 100) (float_lit (600 / 100))) = Finite (6429 / 4)"
  "fadd (Finite (6429 / 4)) (fmul (float_int 100) (float_lit (634 / 100))) = Finite (8965 / 4)"
  by code_simp+

lemma tier_forms:
  "tier1 kwh = fmul kwh (Finite (15 / 4))"
  "tier2 kwh = fadd (Finite (375 / 2)) (fmul (fsub kwh (Finite 50)) (Finite (4717520609670595 / 1125899906842624)))"
  "tier3 kwh = fadd (Finite (1169 / 4)) (fmul (fsub kwh (Finite 75)) (Finite (6440147467139809 / 1125899906842624)))"
  "tier4 kwh = fadd (Finite (4029 / 4)) (fmul (fsub kwh (Finite 200)) (Finite 6))"
  "tier5 kwh = fadd (Finite (6429 / 4)) (fmul (fsub kwh (Finite 300)) (Finite (1784551352345559 / 281474976710656)))"
  "tier6 kwh = fadd (Finite (8965 / 4)) (fmul (fsub kwh (Finite 400)) (Finite (5595722537007841 / 562949953421312)))"
  unfolding tier1_def tier2_def tier3_def tier4_def tier5_def tier6_def tier_bases
  unfolding thresholds rates
  by (rule refl)+


lemma calc_bill_bd_tiers:
  "calc_bill_bd kwh =
     (if dle kwh (float_int 50) then tier1 kwh
      else if dle kwh (float_int 75) then tier2 kwh
      else if dle kwh (float_int 200) then tier3 kwh
      else if dle kwh (float_int 300) then tier4 kwh
      else if dle kwh (float_int 400) then tier5 kwh
      else tier6 kwh)"
  unfolding calc_bill_bd_def tier1_def tier2_def tier3_def tier4_def tier5_def tier6_def ..

lemma tier_mono:
  assumes "dle x y"
  shows "dle (tier1 x) (tier1 y)" "dle (tier2 x) (tier2 y)" "dle (tier3 x) (tier3 y)"
    "dle (tier4 x) (tier4 y)" "dle (tier5 x) (tier5 y)" "dle (tier6 x) (tier6 y)"
  unfolding tier_forms using assms
  by (intro fadd_mono fmul_mono fsub_mono; simp)+

lemma tier_at_lower:
  "tier2 (Finite 50) = Finite (375 / 2)" "tier3 (Finite 75) = Finite (1169 / 4)"
  "tier4 (Finite 200) = Finite (4029 / 4)" "tier5 (Finite 300) = Finite (6429 / 4)"
  "tier6 (Finite 400) = Finite (8965 / 4)"
  unfolding tier_forms by code_simp+

lemma tier_at_upper:
  "tier1 (Finite 50) = Finite (375 / 2)" "tier2 (Finite 75) = Finite (1169 / 4)"
  "tier3 (Finite 200) = Finite (4029 / 4)" "tier4 (Finite 300) = Finite (6429 / 4)"
  "tier5 (Finite 400) = Finite (8965 / 4)"
  unfolding tier_forms by code_simp+

text \<open>Below a threshold the bill is at most the value there; beyond it, at least that value.\<close>

lemma calc_upper:
  "dle x (Finite 50) \<Longrightarrow> dle (calc_bill_bd x) (Finite (375 / 2))"
  "dle x (Finite 75) \<Longrightarrow> dle (calc_bill_bd x) (Finite (1169 / 4))"
  "dle x (Finite 200) \<Longrightarrow> dle (calc_bill_bd x) (Finite (4029 / 4))"
  "dle x (Finite 300) \<Longrightarrow> dle (calc_bill_bd x) (Finite (6429 / 4))"
  "dle x (Finite 400) \<Longrightarrow> dle (calc_bill_bd x) (Finite (8965 / 4))"
proof -
  have u1: "dle (calc_bill_bd x) (Finite (375 / 2))" if "dle x (Finite 50)" for x
    using that tier_mono(1)[OF that] by (simp add: calc_bill_bd_tiers thresholds tier_at_upper)
  have u2: "dle (calc_bill_bd x) (Finite (1169 / 4))" if h: "dle x (Finite 75)" for x
  proof (cases "dle x (Finite 50)")
    case True
    from u1[OF True] show ?thesis by (rule dle_trans) simp
  next
    case False
    then show ?thesis using h tier_mono(2)[OF h] by (simp add: calc_bill_bd_tiers thresholds tier_at_upper)
  qed
  have u3: "dle (calc_bill_bd x) (Finite (4029 / 4))" if h: "dle x (Finite 200)" for x
  proof (cases "dle x (Finite 75)")
    case True
    from u2[OF True] show ?thesis by (rule dle_trans) simp
  next
    case False
    then have "\<not> dle x (Finite 50)" using dle_trans[of x "Finite 50" "Finite 75"] by auto
    then show ?thesis using False h tier_mono(3)[OF h] by (simp add: calc_bill_bd_tiers thresholds tier_at_upper)
  qed
  have u4: "dle (calc_bill_bd x) (Finite (6429 / 4))" if h: "dle x (Finite 300)" for x
  proof (cases "dle x (Finite 200)")
    case True
    from u3[OF True] show ?thesis by (rule dle_trans) simp
  next
    case False
    then have "\<not> dle x (Finite 50)" "\<not> dle x (Finite 75)"
      using dle_trans[of x "Finite 50" "Finite 200"] dle_trans[of x "Finite 75" "Finite 200"] by auto
    then show ?thesis using False h tier_mono(4)[OF h] by (simp add: calc_bill_bd_tiers thresholds tier_at_upper)
  qed
  have u5: "dle (calc_bill_bd x) (Finite (8965 / 4))" if h: "dle x (Finite 400)" for x
  proof (cases "dle x (Finite 300)")
    case True
    from u4[OF True] show ?thesis by (rule dle_trans) simp
  next
    case False
    then have "\<not> dle x (Finite 50)" "\<not> dle x (Finite 75)" "\<not> dle x (Finite 200)"
      using dle_trans[of x "Finite 50" "Finite 300"] dle_trans[of x "Finite 75" "Finite 300"]
        dle_trans[of x "Finite 200" "Finite 300"] by auto
    then show ?thesis using False h tier_mono(5)[OF h] by (simp add: calc_bill_bd_tiers thresholds tier_at_upper)
  qed
  show "dle x (Finite 50) \<Longrightarrow> dle (calc_bill_bd x) (Finite (375 / 2))" by (rule u1)
  show "dle x (Finite 75) \<Longrightarrow> dle (calc_bill_bd x) (Finite (1169 / 4))" by (rule u2)
  show "dle x (Finite 200) \<Longrightarrow> dle (calc_bill_bd x) (Finite (4029 / 4))" by (rule u3)
  show "dle x (Finite 300) \<Longrightarrow> dle (calc_bill_bd x) (Finite (6429 / 4))" by (rule u4)
  show "dle x (Finite 400) \<Longrightarrow> dle (calc_bill_bd x) (Finite (8965 / 4))" by (rule u5)
qed


lemma calc_lower:
  assumes y: "y \<noteq> NaN"
  shows "\<not> dle y (Finite 50) \<Longrightarrow> dle (Finite (375 / 2)) (calc_bill_bd y)"
    "\<not> dle y (Finite 75) \<Longrightarrow> dle (Finite (1169 / 4)) (calc_bill_bd y)"
    "\<not> dle y (Finite 200) \<Longrightarrow> dle (Finite (4029 / 4)) (calc_bill_bd y)"
    "\<not> dle y (Finite 300) \<Longrightarrow> dle (Finite (6429 / 4)) (calc_bill_bd y)"
    "\<not> dle y (Finite 400) \<Longrightarrow> dle (Finite (8965 / 4)) (calc_bill_bd y)"
proof -
  have beyond: "dle (Finite t) y" if "\<not> dle y (Finite t)" for t
    using that y by (intro dle_total) simp_all
  have l5: "dle (Finite (8965 / 4)) (calc_bill_bd y)" if h: "\<not> dle y (Finite 400)"
  proof -
    have "\<not> dle y (Finite 50)" "\<not> dle y (Finite 75)" "\<not> dle y (Finite 200)" "\<not> dle y (Finite 300)"
      using h dle_trans[of y "Finite 50" "Finite 400"] dle_trans[of y "Finite 75" "Finite 400"]
        dle_trans[of y "Finite 200" "Finite 400"] dle_trans[of y "Finite 300" "Finite 400"] by auto
    then show ?thesis
      using h tier_mono(6)[OF beyond[OF h]] by (simp add: calc_bill_bd_tiers thresholds tier_at_lower)
  qed
  have l4: "dle (Finite (6429 / 4)) (calc_bill_bd y)" if h: "\<not> dle y (Finite 300)"
  proof (cases "dle y (Finite 400)")
    case False
    have "dle (Finite (6429 / 4)) (Finite (8965 / 4))" by simp
    then show ?thesis using l5[OF False] by (rule dle_trans)
  next
    case True
    have "\<not> dle y (Finite 50)" "\<not> dle y (Finite 75)" "\<not> dle y (Finite 200)"
      using h dle_trans[of y "Finite 50" "Finite 300"] dle_trans[of y "Finite 75" "Finite 300"]
        dle_trans[of y "Finite 200" "Finite 300"] by auto
    then show ?thesis
      using h True tier_mono(5)[OF beyond[OF h]] by (simp add: calc_bill_bd_tiers thresholds tier_at_lower)
  qed
  have l3: "dle (Finite (4029 / 4)) (calc_bill_bd y)" if h: "\<not> dle y (Finite 200)"
  proof (cases "dle y (Finite 300)")
    case False
    have "dle (Finite (4029 / 4)) (Finite (6429 / 4))" by simp
    then show ?thesis using l4[OF False] by (rule dle_trans)
  next
    case True
    have "\<not> dle y (Finite 50)" "\<not> dle y (Finite 75)"
      using h dle_trans[of y "Finite 50" "Finite 200"] dle_trans[of y "Finite 75" "Finite 200"] by auto
    then show ?thesis
      using h True tier_mono(4)[OF beyond[OF h]] by (simp add: calc_bill_bd_tiers thresholds tier_at_lower)
  qed
  have l2: "dle (Finite (1169 / 4)) (calc_bill_bd y)" if h: "\<not> dle y (Finite 75)"
  proof (cases "dle y (Finite 200)")
    case False
    have "dle (Finite (1169 / 4)) (Finite (4029 / 4))" by simp
    then show ?thesis using l3[OF False] by (rule dle_trans)
  next
    case True
    have "\<not> dle y (Finite 50)"
      using h dle_trans[of y "Finite 50" "Finite 75"] by auto
    then show ?thesis
      using h True tier_mono(3)[OF beyond[OF h]] by (simp add: calc_bill_bd_tiers thresholds tier_at_lower)
  qed
  have l1: "dle (Finite (375 / 2)) (calc_bill_bd y)" if h: "\<not> dle y (Finite 50)"
  proof (cases "dle y (Finite 75)")
    case False
    have "dle (Finite (375 / 2)) (Finite (1169 / 4))" by simp
    then show ?thesis using l2[OF False] by (rule dle_trans)
  next
    case True
    then show ?thesis
      using h tier_mono(2)[OF beyond[OF h]] by (simp add: calc_bill_bd_tiers thresholds tier_at_lower)
  qed
  show "\<not> dle y (Finite 50) \<Longrightarrow> dle (Finite (375 / 2)) (calc_bill_bd y)" by (rule l1)
  show "\<not> dle y (Finite 75) \<Longrightarrow> dle (Finite (1169 / 4)) (calc_bill_bd y)" by (rule l2)
  show "\<not> dle y (Finite 200) \<Longrightarrow> dle (Finite (4029 / 4)) (calc_bill_bd y)" by (rule l3)
  show "\<not> dle y (Finite 300) \<Longrightarrow> dle (Finite (6429 / 4)) (calc_bill_bd y)" by (rule l4)
  show "\<not> dle y (Finite 400) \<Longrightarrow> dle (Finite (8965 / 4)) (calc_bill_bd y)" by (rule l5)
qed

lemma calc_bill_bd_mono:
  assumes xy: "dle x y"
  shows "dle (calc_bill_bd x) (calc_bill_bd y)"
proof -
  have y: "y \<noteq> NaN" using xy dle_not_NaN by blast
  have below: "dle x (Finite t)" if "dle y (Finite t)" for t
    using xy that by (rule dle_trans)
  have same: "dle (calc_bill_bd x) (calc_bill_bd y)"
    if "\<And>t. t \<in> {50, 75, 200, 300, 400} \<Longrightarrow> dle x (Finite t) = dle y (Finite t)"
    using that tier_mono[OF xy] by (simp add: calc_bill_bd_tiers thresholds)
  have step: "dle (calc_bill_bd x) (calc_bill_bd y)"
    if "dle (calc_bill_bd x) (Finite b)" "dle (Finite b) (calc_bill_bd y)" for b
    using that by (rule dle_trans)
  show ?thesis
  proof (cases "dle x (Finite 50) = dle y (Finite 50) \<and> dle x (Finite 75) = dle y (Finite 75)
      \<and> dle x (Finite 200) = dle y (Finite 200) \<and> dle x (Finite 300) = dle y (Finite 300)
      \<and> dle x (Finite 400) = dle y (Finite 400)")
    case True
    then show ?thesis by (intro same) auto
  next
    case False
    then consider
        "dle x (Finite 50)" "\<not> dle y (Finite 50)"
      | "dle x (Finite 75)" "\<not> dle y (Finite 75)"
      | "dle x (Finite 200)" "\<not> dle y (Finite 200)"
      | "dle x (Finite 300)" "\<not> dle y (Finite 300)"
      | "dle x (Finite 400)" "\<not> dle y (Finite 400)"
      using below by blast
    then show ?thesis
    proof cases
      case 1 then show ?thesis using calc_upper(1) calc_lower(1)[OF y] by (intro step)
    next
      case 2 then show ?thesis using calc_upper(2) calc_lower(2)[OF y] by (intro step)
    next
      case 3 then show ?thesis using calc_upper(3) calc_lower(3)[OF y] by (intro step)
    next
      case 4 then show ?thesis using calc_upper(4) calc_lower(4)[OF y] by (intro step)
    next
      case 5 then show ?thesis using calc_upper(5) calc_lower(5)[OF y] by (intro step)
    qed
  qed
qed


text \<open>
  Claim C3. In binary64 arithmetic, \<open>calc_bill_bd(0) == 0\<close>, \<open>calc_bill_bd(50) == 187.5\<close> and
  \<open>calc_bill_bd(75) == 292.25\<close> hold as Python evaluates them: the results are the doubles
  0, 187.5 and 292.25 exactly (the product \<open>25 * 4.19\<close> is not 104.75, but its sum with 187.5
  rounds to 292.25).
\<close>

theorem tariff_spot_values:
  "deq (calc_bill_bd (float_int 0)) (float_int 0)
   \<and> deq (calc_bill_bd (float_int 50)) (float_lit (1875 / 10))
   \<and> deq (calc_bill_bd (float_int 75)) (float_lit (29225 / 100))
   \<and> calc_bill_bd (float_int 0) = Finite 0
   \<and> calc_bill_bd (float_int 50) = Finite (375 / 2)
   \<and> calc_bill_bd (float_int 75) = Finite (1169 / 4)"
  by code_simp

text \<open>
  Claim C4. For all floats with \<open>x <= y\<close> (finite or infinite; a NaN is never \<open><=\<close> anything),
  \<open>calc_bill_bd(x) <= calc_bill_bd(y)\<close>, every rounding included. The function is its six
  branches, chosen by the thresholds, and at each of 50, 75, 200, 300 and 400 the branch below
  and the branch above return the same double.
\<close>

theorem tariff_monotone_continuous:
  "(dle x y \<longrightarrow> dle (calc_bill_bd x) (calc_bill_bd y))
   \<and> calc_bill_bd kwh =
       (if dle kwh (float_int 50) then tier1 kwh
        else if dle kwh (float_int 75) then tier2 kwh
        else if dle kwh (float_int 200) then tier3 kwh
        else if dle kwh (float_int 300) then tier4 kwh
        else if dle kwh (float_int 400) then tier5 kwh
        else tier6 kwh)
   \<and> deq (tier1 (float_int 50)) (tier2 (float_int 50))
   \<and> deq (tier2 (float_int 75)) (tier3 (float_int 75))
   \<and> deq (tier3 (float_int 200)) (tier4 (float_int 200))
   \<and> deq (tier4 (float_int 300)) (tier5 (float_int 300))
   \<and> deq (tier5 (float_int 400)) (tier6 (float_int 400))"
proof -
  have "deq (tier1 (float_int 50)) (tier2 (float_int 50))"
    "deq (tier2 (float_int 75)) (tier3 (float_int 75))"
    "deq (tier3 (float_int 200)) (tier4 (float_int 200))"
    "deq (tier4 (float_int 300)) (tier5 (float_int 300))"
    "deq (tier5 (float_int 400)) (tier6 (float_int 400))"
    unfolding thresholds tier_at_lower tier_at_upper by simp_all
  then show ?thesis
    using calc_bill_bd_mono[of x y] calc_bill_bd_tiers[of kwh] by blast
qed

theorem tariff_monotone_continuous_witness:
  "dle (float_lit (4999 / 100)) (float_lit (7501 / 100))
   \<and> dle (calc_bill_bd (float_lit (4999 / 100))) (calc_bill_bd (float_lit (7501 / 100)))
   \<and> dle (Finite 400) PInf
   \<and> dle (calc_bill_bd (Finite 400)) (calc_bill_bd PInf)"
proof -
  have h: "dle (float_lit (4999 / 100)) (float_lit (7501 / 100))" by code_simp
  have i: "dle (Finite 400) PInf" by simp
  show ?thesis
    using h i tariff_monotone_continuous[of "float_lit (4999 / 100)" "float_lit (7501 / 100)"]
      tariff_monotone_continuous[of "Finite 400" PInf]
    by blast
qed

section \<open>Properties of the cloud client\<close>

lemma get_token_ok: "get_token token_ok = PStr ''tok''"
  by (simp add: get_token_def get_token_try_def token_ok_def)

text \<open>
  Claim C5, evaluated at a failing input. The cloud answers the metadata request with status 200
  and the body \<open>{"result": "plug1", "success": true}\<close>. \<open>get_device_info\<close> returns the string,
  which is truthy, and \<open>device_info.get('online', False)\<close>, which stands outside every \<open>try\<close>
  of \<open>get_device_data\<close>, raises AttributeError: the function raises instead of returning the
  zeroed tuple.
\<close>

theorem get_device_data_raises:
  "get_device_data malformed_env = Inl AttributeError"
  by (simp add: get_device_data_def malformed_env_def online_env_def get_device_info_def
      get_device_info_try_def get_token_ok sign_def)

lemma get_device_data_offline: "get_device_data offline_env = Inr zeroed"
  by (simp add: get_device_data_def offline_env_def online_env_def get_device_info_def
      get_device_info_try_def get_token_ok sign_def)

lemma get_device_data_online:
  "get_device_data online_env =
     Inr (PFloat (Finite (8060739645551411 / 35184372088832)),
          PFloat (Finite (5476377146882523 / 36028797018963968)),
          PFloat (Finite (2371426678787277 / 70368744177664)), PBool True, PBool True)"
  by code_simp

text \<open>What the function does outside that case.\<close>

lemma get_device_data_cases:
  "get_device_data env =
     (let device_info = get_device_info (info_token_reply env) (info_reply env) in
      if \<not> truthy device_info then Inr zeroed
      else (case device_info of
              PDict kvs \<Rightarrow>
                (let is_online = (case map_of kvs ''online'' of None \<Rightarrow> PBool False | Some v \<Rightarrow> v) in
                 if \<not> truthy is_online then Inr zeroed
                 else (case get_status_try env is_online of Inl e \<Rightarrow> Inr zeroed | Inr t \<Rightarrow> Inr t))
            | _ \<Rightarrow> Inl AttributeError))"
  by (simp add: get_device_data_def Let_def split: pyval.splits option.splits)

section \<open>Properties of the poll loop\<close>

lemma filter_insert_or_ignore:
  "\<not> P r \<Longrightarrow> filter P (insert_or_ignore r rows) = filter P rows"
  by (simp add: insert_or_ignore_def)

lemma poll_device_devices: "devices (fst (poll_device env ts dev db)) = devices db"
  by (simp add: poll_device_def Let_def split: sum.splits prod.splits)

lemma poll_device_schedules: "schedules (fst (poll_device env ts dev db)) = schedules db"
  by (simp add: poll_device_def Let_def split: sum.splits prod.splits)

lemma poll_device_other:
  "fst dev \<noteq> d \<Longrightarrow>
   filter (\<lambda>r. rd_device_id r = d) (readings (fst (poll_device env ts dev db))) =
   filter (\<lambda>r. rd_device_id r = d) (readings db)"
  by (simp add: poll_device_def Let_def filter_insert_or_ignore split: sum.splits prod.splits)

lemma poll_device_not_online:
  assumes "\<And>v c p s is_online. get_device_data env = Inr (v, c, p, s, is_online) \<Longrightarrow> \<not> truthy is_online"
  shows "fst (poll_device env ts dev db) = db"
  using assms by (auto simp add: poll_device_def Let_def split: sum.splits prod.splits)

lemma poll_devices_Cons_fst:
  "fst (poll_devices cloud clock (dev # devs) db) =
     fst (poll_devices cloud clock devs (fst (poll_device (cloud (fst dev)) (clock (fst dev)) dev db)))"
  by (simp split: prod.splits)

lemma poll_devices_Cons_snd:
  "snd (poll_devices cloud clock (dev # devs) db) =
     (fst dev, snd (poll_device (cloud (fst dev)) (clock (fst dev)) dev db)) #
     snd (poll_devices cloud clock devs (fst (poll_device (cloud (fst dev)) (clock (fst dev)) dev db)))"
  by (simp split: prod.splits)

lemma poll_devices_not_online:
  assumes "\<And>v c p s is_online. get_device_data (cloud d) = Inr (v, c, p, s, is_online) \<Longrightarrow> \<not> truthy is_online"
  shows "filter (\<lambda>r. rd_device_id r = d) (readings (fst (poll_devices cloud clock devs db))) =
         filter (\<lambda>r. rd_device_id r = d) (readings db)"
proof (induction devs arbitrary: db)
  case Nil
  show ?case by simp
next
  case (Cons dev devs)
  define db1 where "db1 = fst (poll_device (cloud (fst dev)) (clock (fst dev)) dev db)"
  have "filter (\<lambda>r. rd_device_id r = d) (readings db1) = filter (\<lambda>r. rd_device_id r = d) (readings db)"
  proof (cases "fst dev = d")
    case True
    then have "db1 = db" unfolding db1_def using assms by (intro poll_device_not_online) simp
    then show ?thesis by simp
  next
    case False
    then show ?thesis unfolding db1_def by (rule poll_device_other)
  qed
  then show ?case
    unfolding poll_devices_Cons_fst db1_def[symmetric] using Cons.IH[of db1] by simp
qed

text \<open>
  Claim C10. If the fetch for a device does not report it online in a cycle (it returns a tuple
  whose \<open>is_online\<close> is false, as the zeroed tuple is, or it raises), the cycle leaves the
  readings of that device as they were; the loop body for that device returns the database
  unchanged and does not store.
\<close>

theorem offline_device_not_stored:
  assumes "\<forall>v c p s is_online. get_device_data (cloud d) = Inr (v, c, p, s, is_online) \<longrightarrow> \<not> truthy is_online"
  shows "filter (\<lambda>r. rd_device_id r = d) (readings (fst (collect_cycle cloud clock db))) =
         filter (\<lambda>r. rd_device_id r = d) (readings db)
       \<and> fst (poll_device (cloud d) ts (d, access_id, access_secret) db) = db
       \<and> snd (poll_device (cloud d) ts (d, access_id, access_secret) db) \<noteq> Stored"
proof -
  have h: "\<not> truthy is_online" if "get_device_data (cloud d) = Inr (v, c, p, s, is_online)" for v c p s is_online
    using assms that by blast
  have "filter (\<lambda>r. rd_device_id r = d) (readings (fst (collect_cycle cloud clock db))) =
         filter (\<lambda>r. rd_device_id r = d) (readings db)"
    unfolding collect_cycle_def using h by (rule poll_devices_not_online)
  moreover have "fst (poll_device (cloud d) ts (d, access_id, access_secret) db) = db"
    using h by (rule poll_device_not_online)
  moreover have "snd (poll_device (cloud d) ts (d, access_id, access_secret) db) \<noteq> Stored"
    using h by (auto simp add: poll_device_def Let_def split: sum.splits prod.splits)
  ultimately show ?thesis by simp
qed

theorem offline_device_not_stored_witness:
  "filter (\<lambda>r. rd_device_id r = ''plug1'')
     (readings (fst (collect_cycle (\<lambda>i. offline_env) (\<lambda>i. 1762070415) metered_db))) = [demo_reading]
   \<and> fst (poll_device offline_env 1762070415 (''plug1'', ''id'', ''secret'') metered_db) = metered_db
   \<and> snd (poll_device offline_env 1762070415 (''plug1'', ''id'', ''secret'') metered_db) \<noteq> Stored"
proof -
  have h: "\<forall>v c p s is_online. get_device_data ((\<lambda>i. offline_env) ''plug1'') = Inr (v, c, p, s, is_online)
      \<longrightarrow> \<not> truthy is_online"
    by (simp add: get_device_data_offline zeroed_def)
  have r: "filter (\<lambda>r. rd_device_id r = ''plug1'') (readings metered_db) = [demo_reading]"
    by (simp add: metered_db_def demo_reading_def)
  show ?thesis
    using offline_device_not_stored[OF h, where clock = "\<lambda>i. 1762070415" and db = metered_db
        and ts = 1762070415 and access_id = "''id''" and access_secret = "''secret''"] r
    by simp
qed

text \<open>An online device, for comparison: its reading is appended.\<close>

lemma online_device_stored:
  "poll_device online_env 1762070415 (''plug1'', ''id'', ''secret'') metered_db =
     (metered_db \<lparr> readings := [demo_reading,
        \<lparr> rd_device_id = ''plug1'', rd_ts = 1762070415,
          rd_voltage = PFloat (Finite (8060739645551411 / 35184372088832)),
          rd_current = PFloat (Finite (5476377146882523 / 36028797018963968)),
          rd_power = PFloat (Finite (2371426678787277 / 70368744177664)) \<rparr>] \<rparr>, Stored)"
  by (simp add: poll_device_def Let_def get_device_data_online device_exists_def metered_db_def demo_device_def
      demo_reading_def insert_or_ignore_def reading_key_def)


section \<open>Properties of the readings table\<close>

lemma insert_or_ignore_unique:
  "unique_readings rows \<Longrightarrow> unique_readings (insert_or_ignore r rows)"
  by (simp add: unique_readings_def insert_or_ignore_def)

lemma insert_or_ignore_present:
  "reading_key r \<in> set (map reading_key (insert_or_ignore r rows))"
  by (simp add: insert_or_ignore_def)

lemma insert_or_ignore_again:
  assumes "reading_key r2 = reading_key r1"
  shows "insert_or_ignore r2 (insert_or_ignore r1 rows) = insert_or_ignore r1 rows"
proof -
  have "reading_key r2 \<in> set (map reading_key (insert_or_ignore r1 rows))"
    unfolding assms by (rule insert_or_ignore_present)
  then show ?thesis by (simp add: insert_or_ignore_def[of r2])
qed

lemma unique_count:
  assumes "unique_readings rows" "r \<in> set rows"
  shows "filter (\<lambda>x. reading_key x = reading_key r) rows = [r]"
  using assms unfolding unique_readings_def
proof (induction rows)
  case Nil
  then show ?case by simp
next
  case (Cons a rows)
  show ?case
  proof (cases "a = r")
    case True
    have "reading_key r \<notin> set (map reading_key rows)" using Cons.prems True by simp
    then have "reading_key x \<noteq> reading_key r" if "x \<in> set rows" for x
      using that by (metis image_eqI set_map)
    then have "filter (\<lambda>x. reading_key x = reading_key r) rows = []"
      by (simp add: filter_empty_conv)
    then show ?thesis using True by simp
  next
    case False
    then have r: "r \<in> set rows" using Cons.prems by simp
    have "reading_key a \<notin> set (map reading_key rows)" using Cons.prems by simp
    then have "reading_key a \<noteq> reading_key r" using r by auto
    then show ?thesis using Cons.IH r Cons.prems by simp
  qed
qed

lemma poll_device_duplicate:
  assumes "device_exists db d"
    and "get_device_data env = Inr (v, c, p, s, is_online)" "truthy is_online"
    and "(d, ts) \<in> set (map reading_key (readings db))"
  shows "poll_device env ts (d, access_id, access_secret) db = (db, Stored)"
  using assms by (simp add: poll_device_def Let_def insert_or_ignore_def reading_key_def)

text \<open>
  Claim C6. \<open>INSERT OR IGNORE\<close> keeps the rows unique per (device, timestamp). Of two readings
  with the same device and timestamp, inserted one after the other in either order, the first is
  stored and the second changes nothing, so a table that was unique holds exactly one row with
  that key afterwards. In the loop body, a reading whose key is in the table already leaves the
  database as it was, and the body ends as after any other insert, with no error.
\<close>

theorem readings_unique_per_key:
  "(unique_readings rows \<longrightarrow> unique_readings (insert_or_ignore r rows))
   \<and> (reading_key r2 = reading_key r1 \<longrightarrow>
        insert_or_ignore r2 (insert_or_ignore r1 rows) = insert_or_ignore r1 rows
        \<and> insert_or_ignore r1 (insert_or_ignore r2 rows) = insert_or_ignore r2 rows)
   \<and> (unique_readings rows \<and> reading_key r2 = reading_key r1 \<longrightarrow>
        length (filter (\<lambda>x. reading_key x = reading_key r1) (insert_or_ignore r2 (insert_or_ignore r1 rows))) = 1
        \<and> length (filter (\<lambda>x. reading_key x = reading_key r1) (insert_or_ignore r1 (insert_or_ignore r2 rows))) = 1)
   \<and> (device_exists db d \<and> get_device_data env = Inr (v, c, p, s, is_online) \<and> truthy is_online
        \<and> (d, ts) \<in> set (map reading_key (readings db)) \<longrightarrow>
        poll_device env ts (d, access_id, access_secret) db = (db, Stored))"
proof (intro conjI impI)
  assume "unique_readings rows"
  then show "unique_readings (insert_or_ignore r rows)" by (rule insert_or_ignore_unique)
next
  assume k: "reading_key r2 = reading_key r1"
  then show "insert_or_ignore r2 (insert_or_ignore r1 rows) = insert_or_ignore r1 rows"
    by (rule insert_or_ignore_again)
  from k[symmetric] show "insert_or_ignore r1 (insert_or_ignore r2 rows) = insert_or_ignore r2 rows"
    by (rule insert_or_ignore_again)
next
  assume h: "unique_readings rows \<and> reading_key r2 = reading_key r1"
  have one: "length (filter (\<lambda>x. reading_key x = k) (insert_or_ignore a rows)) = 1"
    if "reading_key a = k" for a k
  proof -
    have u: "unique_readings (insert_or_ignore a rows)" using h by (intro insert_or_ignore_unique) simp
    have "k \<in> reading_key ` set (insert_or_ignore a rows)"
      using insert_or_ignore_present[of a rows] that by simp
    then obtain x where x: "x \<in> set (insert_or_ignore a rows)" "reading_key x = k"
      by (metis imageE)
    show ?thesis using unique_count[OF u x(1)] x(2) by simp
  qed
  show "length (filter (\<lambda>x. reading_key x = reading_key r1) (insert_or_ignore r2 (insert_or_ignore r1 rows))) = 1"
    using h one[of r1 "reading_key r1"] by (simp add: insert_or_ignore_again)
  show "length (filter (\<lambda>x. reading_key x = reading_key r1) (insert_or_ignore r1 (insert_or_ignore r2 rows))) = 1"
    using h one[of r2 "reading_key r1"] by (simp add: insert_or_ignore_again)
next
  assume "device_exists db d \<and> get_device_data env = Inr (v, c, p, s, is_online) \<and> truthy is_online
        \<and> (d, ts) \<in> set (map reading_key (readings db))"
  then have "device_exists db d" "get_device_data env = Inr (v, c, p, s, is_online)"
    "truthy is_online" "(d, ts) \<in> set (map reading_key (readings db))"
    by blast+
  then show "poll_device env ts (d, access_id, access_secret) db = (db, Stored)"
    by (rule poll_device_duplicate)
qed

theorem readings_unique_per_key_witness:
  "unique_readings (insert_or_ignore (demo_reading \<lparr> rd_ts := 1762070415 \<rparr>) [demo_reading])
   \<and> insert_or_ignore (demo_reading \<lparr> rd_ts := 1762070415, rd_power := PInt 0 \<rparr>)
        (insert_or_ignore (demo_reading \<lparr> rd_ts := 1762070415 \<rparr>) [demo_reading])
      = [demo_reading, demo_reading \<lparr> rd_ts := 1762070415 \<rparr>]
   \<and> insert_or_ignore (demo_reading \<lparr> rd_ts := 1762070415 \<rparr>)
        (insert_or_ignore (demo_reading \<lparr> rd_ts := 1762070415, rd_power := PInt 0 \<rparr>) [demo_reading])
      = [demo_reading, demo_reading \<lparr> rd_ts := 1762070415, rd_power := PInt 0 \<rparr>]
   \<and> length (filter (\<lambda>x. reading_key x = (''plug1'', 1762070415))
        (insert_or_ignore (demo_reading \<lparr> rd_ts := 1762070415, rd_power := PInt 0 \<rparr>)
          (insert_or_ignore (demo_reading \<lparr> rd_ts := 1762070415 \<rparr>) [demo_reading]))) = 1
   \<and> poll_device online_env 1762070400 (''plug1'', ''id'', ''secret'') metered_db = (metered_db, Stored)"
proof -
  let ?r1 = "demo_reading \<lparr> rd_ts := 1762070415 \<rparr>"
  let ?r2 = "demo_reading \<lparr> rd_ts := 1762070415, rd_power := PInt 0 \<rparr>"
  have u: "unique_readings [demo_reading]" by (simp add: unique_readings_def)
  have k: "reading_key ?r2 = reading_key ?r1" by (simp add: reading_key_def)
  have k1: "reading_key ?r1 = (''plug1'', 1762070415)" by (simp add: reading_key_def demo_reading_def)
  have i1: "insert_or_ignore ?r1 [demo_reading] = [demo_reading, ?r1]"
    and i2: "insert_or_ignore ?r2 [demo_reading] = [demo_reading, ?r2]"
    by (simp_all add: insert_or_ignore_def reading_key_def demo_reading_def)
  have p: "device_exists metered_db ''plug1'' \<and>
      get_device_data online_env = Inr (PFloat (Finite (8060739645551411 / 35184372088832)),
          PFloat (Finite (5476377146882523 / 36028797018963968)),
          PFloat (Finite (2371426678787277 / 70368744177664)), PBool True, PBool True)
      \<and> truthy (PBool True)
      \<and> (''plug1'', 1762070400) \<in> set (map reading_key (readings metered_db))"
    by (simp add: get_device_data_online device_exists_def metered_db_def demo_device_def
        demo_reading_def reading_key_def)
  note T = readings_unique_per_key[where rows = "[demo_reading]" and r = ?r1 and ?r1.0 = ?r1 and ?r2.0 = ?r2
        and db = metered_db and d = "''plug1''" and env = online_env and ts = 1762070400
        and is_online = "PBool True" and access_id = "''id''" and access_secret = "''secret''"
        and v = "PFloat (Finite (8060739645551411 / 35184372088832))"
        and c = "PFloat (Finite (5476377146882523 / 36028797018963968))"
        and p = "PFloat (Finite (2371426678787277 / 70368744177664))" and s = "PBool True"]
  have a: "unique_readings (insert_or_ignore ?r1 [demo_reading])"
    using T u by blast
  have b: "insert_or_ignore ?r2 (insert_or_ignore ?r1 [demo_reading]) = insert_or_ignore ?r1 [demo_reading]"
    and c: "insert_or_ignore ?r1 (insert_or_ignore ?r2 [demo_reading]) = insert_or_ignore ?r2 [demo_reading]"
    using T k by blast+
  have "length (filter (\<lambda>x. reading_key x = reading_key ?r1)
        (insert_or_ignore ?r2 (insert_or_ignore ?r1 [demo_reading]))) = 1"
    using T u k by blast
  then have d: "length (filter (\<lambda>x. reading_key x = (''plug1'', 1762070415))
        (insert_or_ignore ?r2 (insert_or_ignore ?r1 [demo_reading]))) = 1"
    unfolding k1 .
  have e: "poll_device online_env 1762070400 (''plug1'', ''id'', ''secret'') metered_db = (metered_db, Stored)"
    using T p by blast
  have b': "insert_or_ignore ?r2 (insert_or_ignore ?r1 [demo_reading]) = [demo_reading, ?r1]"
    unfolding b by (rule i1)
  have c': "insert_or_ignore ?r1 (insert_or_ignore ?r2 [demo_reading]) = [demo_reading, ?r2]"
    unfolding c by (rule i2)
  from a b' c' d e show ?thesis by (intro conjI)
qed


section \<open>Properties of device deletion\<close>

lemma poll_device_readings:
  "r \<in> set (readings (fst (poll_device env ts dev db))) \<Longrightarrow>
   r \<in> set (readings db) \<or> rd_device_id r = fst dev"
  by (auto simp add: poll_device_def Let_def insert_or_ignore_def split: sum.splits prod.splits if_splits)

lemma poll_devices_devices: "devices (fst (poll_devices cloud clock devs db)) = devices db"
proof (induction devs arbitrary: db)
  case Nil
  show ?case by simp
next
  case (Cons dev devs)
  show ?case unfolding poll_devices_Cons_fst Cons.IH by (rule poll_device_devices)
qed

lemma poll_devices_schedules: "schedules (fst (poll_devices cloud clock devs db)) = schedules db"
proof (induction devs arbitrary: db)
  case Nil
  show ?case by simp
next
  case (Cons dev devs)
  show ?case unfolding poll_devices_Cons_fst Cons.IH by (rule poll_device_schedules)
qed

lemma poll_devices_readings:
  "r \<in> set (readings (fst (poll_devices cloud clock devs db))) \<Longrightarrow>
   r \<in> set (readings db) \<or> rd_device_id r \<in> fst ` set devs"
proof (induction devs arbitrary: db)
  case Nil
  then show ?case by simp
next
  case (Cons dev devs)
  define db1 where "db1 = fst (poll_device (cloud (fst dev)) (clock (fst dev)) dev db)"
  have "r \<in> set (readings (fst (poll_devices cloud clock devs db1)))"
    using Cons.prems unfolding poll_devices_Cons_fst db1_def .
  then have "r \<in> set (readings db1) \<or> rd_device_id r \<in> fst ` set devs" by (rule Cons.IH)
  moreover have "r \<in> set (readings db) \<or> rd_device_id r = fst dev" if "r \<in> set (readings db1)"
    using that unfolding db1_def by (rule poll_device_readings)
  ultimately show ?case by auto
qed

lemma poll_devices_events: "map fst (snd (poll_devices cloud clock devs db)) = map fst devs"
proof (induction devs arbitrary: db)
  case Nil
  show ?case by simp
next
  case (Cons dev devs)
  show ?case unfolding poll_devices_Cons_snd by (simp add: Cons.IH)
qed

lemma collect_cycle_devices: "devices (fst (collect_cycle cloud clock db)) = devices db"
  unfolding collect_cycle_def by (rule poll_devices_devices)

lemma collect_cycle_schedules: "schedules (fst (collect_cycle cloud clock db)) = schedules db"
  unfolding collect_cycle_def by (rule poll_devices_schedules)

lemma collect_cycle_unregistered:
  assumes "\<not> device_exists db d"
  shows "d \<notin> fst ` set (snd (collect_cycle cloud clock db))"
    and "d \<notin> rd_device_id ` set (readings db) \<Longrightarrow> d \<notin> rd_device_id ` set (readings (fst (collect_cycle cloud clock db)))"
proof -
  let ?devs = "map (\<lambda>d. (dev_device_id d, dev_access_id d, dev_access_secret d)) (devices db)"
  have ids: "fst ` set ?devs = dev_device_id ` set (devices db)"
    by (simp add: image_image)
  have listed: "d \<notin> fst ` set ?devs"
    unfolding ids using assms by (auto simp add: device_exists_def)
  have "set (map fst (snd (collect_cycle cloud clock db))) = set (map fst ?devs)"
    unfolding collect_cycle_def poll_devices_events ..
  then have "fst ` set (snd (collect_cycle cloud clock db)) = fst ` set ?devs"
    by (simp only: set_map)
  then show "d \<notin> fst ` set (snd (collect_cycle cloud clock db))"
    using listed by metis
  show "d \<notin> rd_device_id ` set (readings (fst (collect_cycle cloud clock db)))"
    if old: "d \<notin> rd_device_id ` set (readings db)"
  proof
    assume "d \<in> rd_device_id ` set (readings (fst (collect_cycle cloud clock db)))"
    then obtain r where r: "r \<in> set (readings (fst (collect_cycle cloud clock db)))" "rd_device_id r = d"
      by auto
    from r(1) have "r \<in> set (readings db) \<or> rd_device_id r \<in> fst ` set ?devs"
      unfolding collect_cycle_def by (rule poll_devices_readings)
    then show False using r(2) old listed by auto
  qed
qed

lemma collect_cycles_unregistered:
  assumes "\<not> device_exists db d" "d \<notin> rd_device_id ` set (readings db)"
  shows "\<not> device_exists (collect_cycles cloud clock n db) d
       \<and> d \<notin> rd_device_id ` set (readings (collect_cycles cloud clock n db))"
proof (induction n)
  case 0
  show ?case using assms by simp
next
  case (Suc n)
  define dbn where "dbn = collect_cycles cloud clock n db"
  have a: "\<not> device_exists dbn d" and b: "d \<notin> rd_device_id ` set (readings dbn)"
    using Suc unfolding dbn_def by simp_all
  have "\<not> device_exists (fst (collect_cycle (cloud n) (clock n) dbn)) d"
    using a by (simp add: device_exists_def collect_cycle_devices)
  moreover have "d \<notin> rd_device_id ` set (readings (fst (collect_cycle (cloud n) (clock n) dbn)))"
    using a b by (rule collect_cycle_unregistered(2))
  ultimately show ?case by (simp add: dbn_def)
qed

lemma delete_device_registered:
  assumes "device_exists db d"
  shows "delete_device d db =
     (db \<lparr> readings := filter (\<lambda>r. rd_device_id r \<noteq> d) (readings db),
           devices := filter (\<lambda>x. dev_device_id x \<noteq> d) (devices db) \<rparr>, 200)"
  using assms by (simp add: delete_device_def)

text \<open>
  Claim C9. Deleting a registered device answers 200 and removes its row and all its readings,
  keeps every other device row and reading, and leaves the schedules as they were. After any
  number of poll cycles from there the device is still not registered and has no reading; the
  next cycle has no event for it at all, and the loop body, given a stale row of the deleted device,
  skips it and leaves the database unchanged.
\<close>

theorem delete_device_removes_readings:
  assumes "device_exists db d"
  shows "snd (delete_device d db) = 200
     \<and> devices (fst (delete_device d db)) = filter (\<lambda>x. dev_device_id x \<noteq> d) (devices db)
     \<and> readings (fst (delete_device d db)) = filter (\<lambda>r. rd_device_id r \<noteq> d) (readings db)
     \<and> schedules (fst (delete_device d db)) = schedules db
     \<and> \<not> device_exists (collect_cycles cloud clock n (fst (delete_device d db))) d
     \<and> d \<notin> rd_device_id ` set (readings (collect_cycles cloud clock n (fst (delete_device d db))))
     \<and> d \<notin> fst ` set (snd (collect_cycle (cloud n) (clock n) (collect_cycles cloud clock n (fst (delete_device d db)))))
     \<and> poll_device env ts (d, access_id, access_secret) (collect_cycles cloud clock n (fst (delete_device d db)))
         = (collect_cycles cloud clock n (fst (delete_device d db)), No_longer_exists)"
proof -
  define db' where "db' = fst (delete_device d db)"
  have del: "delete_device d db =
     (db \<lparr> readings := filter (\<lambda>r. rd_device_id r \<noteq> d) (readings db),
           devices := filter (\<lambda>x. dev_device_id x \<noteq> d) (devices db) \<rparr>, 200)"
    using assms by (rule delete_device_registered)
  have gone: "\<not> device_exists db' d" "d \<notin> rd_device_id ` set (readings db')"
    by (auto simp add: db'_def del device_exists_def)
  have inv: "\<not> device_exists (collect_cycles cloud clock n db') d
       \<and> d \<notin> rd_device_id ` set (readings (collect_cycles cloud clock n db'))"
    using gone by (rule collect_cycles_unregistered)
  then have ev: "d \<notin> fst ` set (snd (collect_cycle (cloud n) (clock n) (collect_cycles cloud clock n db')))"
    by (intro collect_cycle_unregistered(1)) simp
  have stale: "poll_device env ts (d, access_id, access_secret) (collect_cycles cloud clock n db')
         = (collect_cycles cloud clock n db', No_longer_exists)"
    using inv by (simp add: poll_device_def)
  show ?thesis
    using inv ev stale unfolding db'_def[symmetric] by (simp add: db'_def del)
qed

theorem delete_device_removes_readings_witness:
  "snd (delete_device ''plug1'' metered_db) = 200
   \<and> devices (fst (delete_device ''plug1'' metered_db)) = []
   \<and> readings (fst (delete_device ''plug1'' metered_db)) = []
   \<and> schedules (fst (delete_device ''plug1'' metered_db)) = [demo_schedule ''08:00'' ''18:00'']
   \<and> \<not> device_exists (collect_cycles (\<lambda>k i. online_env) (\<lambda>k i. 1762070415 + 15 * int k) 2
         (fst (delete_device ''plug1'' metered_db))) ''plug1''
   \<and> ''plug1'' \<notin> rd_device_id ` set (readings (collect_cycles (\<lambda>k i. online_env) (\<lambda>k i. 1762070415 + 15 * int k) 2
         (fst (delete_device ''plug1'' metered_db))))
   \<and> snd (poll_device online_env 1762070460 (''plug1'', ''id'', ''secret'')
         (collect_cycles (\<lambda>k i. online_env) (\<lambda>k i. 1762070415 + 15 * int k) 2
           (fst (delete_device ''plug1'' metered_db)))) = No_longer_exists"
proof -
  have e: "device_exists metered_db ''plug1''"
    by (simp add: device_exists_def metered_db_def demo_device_def)
  have f: "filter (\<lambda>x. dev_device_id x \<noteq> ''plug1'') (devices metered_db) = []"
    "filter (\<lambda>r. rd_device_id r \<noteq> ''plug1'') (readings metered_db) = []"
    "schedules metered_db = [demo_schedule ''08:00'' ''18:00'']"
    by (simp_all add: metered_db_def demo_device_def demo_reading_def)
  show ?thesis
    using delete_device_removes_readings[OF e, where cloud = "\<lambda>k i. online_env"
        and clock = "\<lambda>k i. 1762070415 + 15 * int k" and n = 2 and env = online_env
        and ts = 1762070460 and access_id = "''id''" and access_secret = "''secret''"]
    by (simp add: f)
qed

end
